theory Spec2Isabelle
  imports Main "HOL-Library.Word"
begin

section \<open>The program: displaySpinnakerFramesOpenCV.cpp\<close>

text \<open>
  The program is one function, \<^verbatim>\<open>main\<close>, over a handful of globals. Its loop body has
  three blocks: the frame generation loop (lines 74-77), the wrapping of the buffer in a
  \<^verbatim>\<open>Mat\<close> and its display (lines 88-93), and the FPS calculation (lines 97-112). Each
  block is embedded as a function on the program state. What the program takes from
  outside (the values \<^verbatim>\<open>rand()\<close> returns, the readings of the steady clock, the value of
  the global \<^verbatim>\<open>streaming\<close> at each test of the loop condition) is an environment of
  sequences, indexed by the number of the call.
\<close>

subsection \<open>Constants and types\<close>

type_synonym u8 = "8 word"

definition ns_per_second :: int where
  "ns_per_second = 1000000000"

definition cols :: int where
  "cols = 1000"

definition rows :: int where
  "rows = 400"

datatype cv_type = CV_8UC1

text \<open>
  The two byte blocks of the program: the static array \<^verbatim>\<open>img_raw\<close> and the block that the
  global \<^verbatim>\<open>Mat img(rows, cols, CV_8UC1)\<close> of line 38 allocates for itself. A \<^verbatim>\<open>Mat\<close> is a
  header (dimensions, element type) and a pointer to one of them; the constructor with a
  data pointer (line 88) copies nothing.
\<close>

datatype data_ptr = Ptr_img_raw | Ptr_global_img

record Mat =
  mat_rows :: int
  mat_cols :: int
  mat_type :: cv_type
  mat_data :: data_ptr

text \<open>What a window holds: a copy of the pixels it was given last.\<close>

record image =
  im_rows :: int
  im_cols :: int
  im_pixels :: "u8 list"

datatype window_content = Blank | Showing image

text \<open>
  Undefined behaviour the model makes explicit: an access outside the block a pointer
  refers to.
\<close>

datatype error = Out_of_bounds

record env =
  rand_seq :: "nat \<Rightarrow> int"
  clock_seq :: "nat \<Rightarrow> 64 word"
  streaming_seq :: "nat \<Rightarrow> bool"
  uninit :: "nat \<Rightarrow> u8"

text \<open>
  The state: the globals and locals of \<^verbatim>\<open>main\<close>, the console, the windows, the numbers of
  calls made to \<^verbatim>\<open>rand\<close> and to the clock, and two logs that the program does not have:
  \<open>img_raw_writes\<close> records every store to \<^verbatim>\<open>img_raw\<close> (index and value) and \<open>displayed\<close>
  every image handed to \<^verbatim>\<open>imshow\<close>, in order. The tally is a C \<^verbatim>\<open>int\<close>: a 32-bit word
  read with \<open>sint\<close>. Each element \<open>v\<close> of \<open>cout\<close> stands for one line \<^verbatim>\<open>FPS: v\<close>. A time
  point of the steady clock is a signed 64-bit count of nanoseconds: a 64-bit word read
  with \<open>sint\<close>, and the difference of two of them wraps around as the machine's does.
\<close>

record state =
  img_raw :: "u8 list"
  global_img_data :: "u8 list"
  time_of_last_fps_calculation :: "64 word"
  frames_since_last_fps_calculation :: "32 word"
  rand_calls :: nat
  clock_calls :: nat
  cout :: "int list"
  windows :: "string \<Rightarrow> window_content option"
  displayed :: "image list"
  img_raw_writes :: "(nat \<times> u8) list"

subsection \<open>Frame generation (lines 74-77)\<close>

text \<open>C's \<^verbatim>\<open>%\<close> on \<^verbatim>\<open>int\<close> truncates towards zero: the result has the sign of the dividend.\<close>

definition c_rem :: "int \<Rightarrow> int \<Rightarrow> int" where
  "c_rem a b = sgn a * (\<bar>a\<bar> mod \<bar>b\<bar>)"

text \<open>\<^verbatim>\<open>rand() % 255\<close>, converted to \<^verbatim>\<open>uint8_t\<close> by the assignment.\<close>

definition pixel_of_rand :: "int \<Rightarrow> u8" where
  "pixel_of_rand r = word_of_int (c_rem r 255)"

text \<open>\<^verbatim>\<open>img_raw[i] = v\<close>: a store outside the array is undefined behaviour.\<close>

definition store_img_raw :: "nat \<Rightarrow> u8 \<Rightarrow> state \<Rightarrow> error + state" where
  "store_img_raw i v s =
     (if i < length (img_raw s)
      then Inr (s\<lparr>img_raw := (img_raw s)[i := v],
                  img_raw_writes := img_raw_writes s @ [(i, v)]\<rparr>)
      else Inl Out_of_bounds)"

text \<open>One call of \<^verbatim>\<open>rand()\<close>: the next value of the sequence.\<close>

definition rand :: "env \<Rightarrow> state \<Rightarrow> int \<times> state" where
  "rand e s = (rand_seq e (rand_calls s), s\<lparr>rand_calls := Suc (rand_calls s)\<rparr>)"

text \<open>
  \<^verbatim>\<open>for(uint i = 0; i < n; i++) img_raw[i] = rand() % 255;\<close> from the counter value \<open>i\<close>
  on. The bound \<open>n\<close> is \<^verbatim>\<open>cols*rows\<close> in the program, converted to \<^verbatim>\<open>uint\<close> by the
  comparison.
\<close>

function fill_loop :: "env \<Rightarrow> 32 word \<Rightarrow> 32 word \<Rightarrow> state \<Rightarrow> error + state" where
  "fill_loop e n i s =
     (if i < n then
        (case rand e s of
           (r, s1) \<Rightarrow>
             (case store_img_raw (unat i) (pixel_of_rand r) s1 of
                Inl x \<Rightarrow> Inl x
              | Inr s2 \<Rightarrow> fill_loop e n (i + 1) s2))
      else Inr s)"
  by pat_completeness auto
termination
proof (relation "measure (\<lambda>(e, n, i, s). unat n - unat i)", goal_cases)
  case 1
  show ?case
    by simp
next
  case (2 e n i s r s1 s2)
  have below: "unat i < unat n"
    using 2(1) by (simp add: word_less_nat_alt)
  moreover have "unat n < 2 ^ 32"
    using unsigned_less [of n] by simp
  ultimately have "unat i + 1 < 2 ^ 32"
    by simp
  then have "unat (i + 1) = unat i + unat (1 :: 32 word)"
    by (simp add: unat_add_lem [THEN iffD1])
  with below show ?case
    by simp
qed

declare fill_loop.simps [simp del]

text \<open>The loop as the program runs it (the specification's \<open>fill\<close>), with its bound.\<close>

definition fill :: "env \<Rightarrow> state \<Rightarrow> error + state" where
  "fill e s = fill_loop e (word_of_int (cols * rows)) 0 s"

subsection \<open>Display (lines 88-93)\<close>

text \<open>\<^verbatim>\<open>Mat(rows, cols, type, data)\<close>: a header over the caller's bytes.\<close>

definition Mat_wrap :: "int \<Rightarrow> int \<Rightarrow> cv_type \<Rightarrow> data_ptr \<Rightarrow> Mat" where
  "Mat_wrap r c t p = \<lparr>mat_rows = r, mat_cols = c, mat_type = t, mat_data = p\<rparr>"

definition deref :: "state \<Rightarrow> data_ptr \<Rightarrow> u8 list" where
  "deref s p = (case p of Ptr_img_raw \<Rightarrow> img_raw s | Ptr_global_img \<Rightarrow> global_img_data s)"

text \<open>
  The functions of OpenCV are not part of the program's source; they are embedded by
  what their interface promises.
  \<^verbatim>\<open>namedWindow\<close> creates the window unless it exists. \<^verbatim>\<open>imshow\<close> takes the matrix as an
  input array: it reads rows times cols bytes through the data pointer (a read past the
  block is undefined behaviour) and the window, created if need be, shows a copy of
  them. \<^verbatim>\<open>waitKey\<close> handles window events for the given delay and returns a key code,
  which the program drops.
\<close>

definition namedWindow :: "string \<Rightarrow> state \<Rightarrow> state" where
  "namedWindow w s =
     (case windows s w of
        None \<Rightarrow> s\<lparr>windows := (windows s)(w \<mapsto> Blank)\<rparr>
      | Some c \<Rightarrow> s)"

definition imshow :: "string \<Rightarrow> Mat \<Rightarrow> state \<Rightarrow> error + state" where
  "imshow w m s =
     (let n = nat (mat_rows m * mat_cols m) in
      if n \<le> length (deref s (mat_data m)) then
        (let im = \<lparr>im_rows = mat_rows m, im_cols = mat_cols m,
                   im_pixels = take n (deref s (mat_data m))\<rparr>
         in Inr (s\<lparr>windows := (windows s)(w \<mapsto> Showing im),
                    displayed := displayed s @ [im]\<rparr>))
      else Inl Out_of_bounds)"

definition waitKey :: "int \<Rightarrow> state \<Rightarrow> state" where
  "waitKey delay s = s"

text \<open>
  Lines 92-93, the specification's \<open>present\<close>: \<^verbatim>\<open>imshow\<close> of the view in the window of the
  given title, then \<^verbatim>\<open>waitKey(1)\<close>.
\<close>

definition present :: "Mat \<Rightarrow> string \<Rightarrow> state \<Rightarrow> error + state" where
  "present view title s =
     (case imshow title view s of
        Inl x \<Rightarrow> Inl x
      | Inr s1 \<Rightarrow> Inr (waitKey 1 s1))"

subsection \<open>FPS calculation (lines 97-112)\<close>

text \<open>One reading of \<^verbatim>\<open>chrono::steady_clock::now()\<close>.\<close>

definition now :: "env \<Rightarrow> state \<Rightarrow> 64 word \<times> state" where
  "now e s = (clock_seq e (clock_calls s), s\<lparr>clock_calls := Suc (clock_calls s)\<rparr>)"

text \<open>
  Lines 97-112, the specification's rate monitor, once per pass through the loop body.
  The difference of line 98 is a 64-bit subtraction; its count is compared as a signed
  number with \<^verbatim>\<open>ns_per_second\<close>.
  The reporting branch reads the clock a second time (line 105) and prints the tally
  before it resets it. The increment of the other branch is that of a 32-bit \<^verbatim>\<open>int\<close>.
\<close>

definition rate_monitor :: "env \<Rightarrow> state \<Rightarrow> state" where
  "rate_monitor e s =
     (case now e s of
        (current_time, s1) \<Rightarrow>
          (let diff = current_time - time_of_last_fps_calculation s1;
               diff_ns = sint diff
           in
           if diff_ns > ns_per_second then
             (case now e s1 of
                (t, s2) \<Rightarrow>
                  (let s3 = s2\<lparr>time_of_last_fps_calculation := t\<rparr>;
                       s4 = s3\<lparr>cout := cout s3 @ [sint (frames_since_last_fps_calculation s3)]\<rparr>
                   in s4\<lparr>frames_since_last_fps_calculation := 0\<rparr>))
           else
             s1\<lparr>frames_since_last_fps_calculation :=
                  frames_since_last_fps_calculation s1 + 1\<rparr>))"

subsection \<open>The loop and \<^verbatim>\<open>main\<close>\<close>

definition window_title :: string where
  "window_title = ''PtGrey Live Feed''"

text \<open>The loop body: lines 74-77, then 88-93 with the header built anew, then 97-112.\<close>

definition iteration :: "env \<Rightarrow> state \<Rightarrow> error + state" where
  "iteration e s =
     (case fill e s of
        Inl x \<Rightarrow> Inl x
      | Inr s1 \<Rightarrow>
          (let img = Mat_wrap rows cols CV_8UC1 Ptr_img_raw in
           case present img window_title s1 of
             Inl x \<Rightarrow> Inl x
           | Inr s2 \<Rightarrow> Inr (rate_monitor e s2)))"

text \<open>
  The state when the loop is entered: \<^verbatim>\<open>img_raw\<close> has static storage and is zeroed, the
  global \<^verbatim>\<open>Mat\<close> has allocated rows times cols bytes of its own, whose contents are not
  determined, the window exists, the clock has been read once and the tally is 0.
  \<^verbatim>\<open>srand(time(NULL))\<close> chooses the sequence \<open>rand_seq\<close>.
\<close>

definition startup :: "env \<Rightarrow> state" where
  "startup e =
     (let s0 = \<lparr>img_raw = replicate (nat (cols * rows)) 0,
                global_img_data = map (uninit e) [0 ..< nat (rows * cols)],
                time_of_last_fps_calculation = 0,
                frames_since_last_fps_calculation = 0,
                rand_calls = 0,
                clock_calls = 0,
                cout = [],
                windows = (\<lambda>w. None),
                displayed = [],
                img_raw_writes = []\<rparr>;
          s1 = namedWindow window_title s0
      in case now e s1 of
           (t, s2) \<Rightarrow> s2\<lparr>time_of_last_fps_calculation := t,
                           frames_since_last_fps_calculation := 0\<rparr>)"

text \<open>
  \<^verbatim>\<open>while(streaming) { ... }\<close>. The loop may run forever, so it takes fuel: \<open>None\<close> says
  that the fuel ran out with the loop still running. \<open>k\<close> numbers the tests of the loop
  condition; nothing in the body reads or writes \<^verbatim>\<open>streaming\<close>.
\<close>

fun main_loop :: "env \<Rightarrow> nat \<Rightarrow> nat \<Rightarrow> state \<Rightarrow> (error + state) option" where
  "main_loop e 0 k s = None"
| "main_loop e (Suc fuel) k s =
     (if streaming_seq e k then
        (case iteration e s of
           Inl x \<Rightarrow> Some (Inl x)
         | Inr s1 \<Rightarrow> main_loop e fuel (Suc k) s1)
      else Some (Inr s))"

text \<open>\<^verbatim>\<open>main\<close>: the exit code and the final state, when the loop ends.\<close>

definition main :: "env \<Rightarrow> nat \<Rightarrow> (error + int \<times> state) option" where
  "main e fuel =
     (case main_loop e fuel 0 (startup e) of
        None \<Rightarrow> None
      | Some (Inl x) \<Rightarrow> Some (Inl x)
      | Some (Inr s) \<Rightarrow> Some (Inr (0, s)))"

text \<open>The first \<open>k\<close> passes through the loop body, with no test between them.\<close>

fun iterations :: "env \<Rightarrow> nat \<Rightarrow> state \<Rightarrow> error + state" where
  "iterations e 0 s = Inr s"
| "iterations e (Suc k) s =
     (case iteration e s of
        Inl x \<Rightarrow> Inl x
      | Inr s1 \<Rightarrow> iterations e k s1)"

subsection \<open>The variant that builds the wrapper once\<close>

text \<open>
  The change the specification allows in its design notes, the program with line 88
  moved in front of the loop: the \<^verbatim>\<open>Mat\<close> header is built once
  and every pass through the body hands that same header to \<^verbatim>\<open>imshow\<close>. Nothing else
  differs from \<open>iteration\<close>, \<open>main_loop\<close> and \<open>main\<close>.
\<close>

definition iteration_hoisted :: "Mat \<Rightarrow> env \<Rightarrow> state \<Rightarrow> error + state" where
  "iteration_hoisted img e s =
     (case fill e s of
        Inl x \<Rightarrow> Inl x
      | Inr s1 \<Rightarrow>
          (case present img window_title s1 of
             Inl x \<Rightarrow> Inl x
           | Inr s2 \<Rightarrow> Inr (rate_monitor e s2)))"

fun main_loop_hoisted :: "Mat \<Rightarrow> env \<Rightarrow> nat \<Rightarrow> nat \<Rightarrow> state \<Rightarrow> (error + state) option" where
  "main_loop_hoisted img e 0 k s = None"
| "main_loop_hoisted img e (Suc fuel) k s =
     (if streaming_seq e k then
        (case iteration_hoisted img e s of
           Inl x \<Rightarrow> Some (Inl x)
         | Inr s1 \<Rightarrow> main_loop_hoisted img e fuel (Suc k) s1)
      else Some (Inr s))"

definition main_hoisted :: "env \<Rightarrow> nat \<Rightarrow> (error + int \<times> state) option" where
  "main_hoisted e fuel =
     (let img = Mat_wrap rows cols CV_8UC1 Ptr_img_raw in
      case main_loop_hoisted img e fuel 0 (startup e) of
        None \<Rightarrow> None
      | Some (Inl x) \<Rightarrow> Some (Inl x)
      | Some (Inr s) \<Rightarrow> Some (Inr (0, s)))"

subsection \<open>What the frame generation loop computes\<close>

text \<open>
  The state the loop leaves when it runs from counter \<open>i\<close> to bound \<open>n\<close> inside the
  array: the bytes at \<open>i\<close> up to \<open>n\<close> are the successive draws, the number of draws and
  the log of stores have grown by \<open>n - i\<close> entries, everything else is as it was.
\<close>

definition fill_result :: "env \<Rightarrow> 32 word \<Rightarrow> 32 word \<Rightarrow> state \<Rightarrow> state" where
  "fill_result e n i s =
     s\<lparr>img_raw := take (unat i) (img_raw s)
                   @ map (\<lambda>j. pixel_of_rand (rand_seq e (rand_calls s + (j - unat i))))
                       [unat i ..< unat n]
                   @ drop (unat n) (img_raw s),
       rand_calls := rand_calls s + (unat n - unat i),
       img_raw_writes := img_raw_writes s
                   @ map (\<lambda>j. (j, pixel_of_rand (rand_seq e (rand_calls s + (j - unat i)))))
                       [unat i ..< unat n]\<rparr>"

text \<open>
  The values of \<^verbatim>\<open>rand()\<close> between 0 and \<open>rand_max\<close> that the loop turns into the byte \<open>v\<close>.
  Under a source that is uniform on that range, the byte \<open>v\<close> has probability
  \<open>length (draws_giving rand_max v) / (rand_max + 1)\<close>.
\<close>

definition draws_giving :: "int \<Rightarrow> u8 \<Rightarrow> int list" where
  "draws_giving rand_max v = filter (\<lambda>r. pixel_of_rand r = v) [0 .. rand_max]"

subsection \<open>Projections of the state\<close>

text \<open>
  The part of the state the FPS calculation reads and writes; the image a \<^verbatim>\<open>Mat\<close> header
  denotes in a state; the image of the whole of \<^verbatim>\<open>img_raw\<close> under the program's
  dimensions; and what a displayed frame of the program is expected to be.
\<close>

definition monitor_fields :: "state \<Rightarrow> 64 word \<times> 32 word \<times> nat \<times> int list" where
  "monitor_fields s =
     (time_of_last_fps_calculation s, frames_since_last_fps_calculation s, clock_calls s, cout s)"

definition view_image :: "Mat \<Rightarrow> state \<Rightarrow> image" where
  "view_image m s =
     \<lparr>im_rows = mat_rows m, im_cols = mat_cols m,
      im_pixels = take (nat (mat_rows m * mat_cols m)) (deref s (mat_data m))\<rparr>"

definition frame_image :: "state \<Rightarrow> image" where
  "frame_image s = \<lparr>im_rows = rows, im_cols = cols, im_pixels = img_raw s\<rparr>"

definition frame_ok :: "image \<Rightarrow> bool" where
  "frame_ok im \<longleftrightarrow>
     im_rows im = rows \<and> im_cols im = cols \<and> length (im_pixels im) = 400000 \<and>
     int (length (im_pixels im)) = im_cols im * im_rows im"

text \<open>
  The pass that starts in \<open>s\<close> overflows the tally: it takes the branch of line 111 with
  the tally at 2147483647, the largest \<^verbatim>\<open>int\<close>.
\<close>

definition tally_overflows :: "env \<Rightarrow> state \<Rightarrow> bool" where
  "tally_overflows e s \<longleftrightarrow>
     frames_since_last_fps_calculation s = 2147483647 \<and>
     \<not> ns_per_second < sint (clock_seq e (clock_calls s) - time_of_last_fps_calculation s)"

subsection \<open>Concrete inputs\<close>

text \<open>
  An environment whose draws are 254, 255, 256, ... and whose clock stands still, and a
  state with a buffer of four bytes. \<open>env_clock ts\<close> has the clock readings \<open>ts\<close>, the last
  one for ever after; \<open>env_burst\<close> has 2147483649 readings of 0 and then 2000000000;
  \<open>state_epoch\<close> is \<open>state_four\<close> with the earliest timestamp there is;
  \<open>env_stop_at n\<close> has the flag \<^verbatim>\<open>streaming\<close> true at the tests before the \<open>n\<close>-th and false
  from then on.
\<close>

definition env_ramp :: env where
  "env_ramp = \<lparr>rand_seq = (\<lambda>k. 254 + int k), clock_seq = (\<lambda>k. 0),
     streaming_seq = (\<lambda>k. True), uninit = (\<lambda>k. 0)\<rparr>"

definition state_four :: state where
  "state_four = \<lparr>img_raw = [7, 7, 7, 7],
     global_img_data = [],
     time_of_last_fps_calculation = 0,
     frames_since_last_fps_calculation = 0,
     rand_calls = 0,
     clock_calls = 0,
     cout = [],
     windows = (\<lambda>w. None),
     displayed = [],
     img_raw_writes = []\<rparr>"

definition env_clock :: "64 word list \<Rightarrow> env" where
  "env_clock ts =
     env_ramp\<lparr>clock_seq := (\<lambda>k. if k < length ts then ts ! k else if ts = [] then 0 else last ts)\<rparr>"

definition env_burst :: env where
  "env_burst = env_ramp\<lparr>clock_seq := (\<lambda>k. if k \<le> 2147483648 then 0 else 2000000000)\<rparr>"

definition state_epoch :: state where
  "state_epoch = state_four\<lparr>time_of_last_fps_calculation := - 9223372036854775808\<rparr>"

definition env_stop_at :: "nat \<Rightarrow> env" where
  "env_stop_at n = env_ramp\<lparr>streaming_seq := (\<lambda>k. k < n)\<rparr>"

section \<open>Frame generation\<close>

subsection \<open>The sample\<close>

lemma c_rem_nonneg: "0 \<le> r \<Longrightarrow> c_rem r 255 = r mod 255"
  by (cases "r = 0") (simp_all add: c_rem_def)

lemma uint_pixel_of_rand: "0 \<le> r \<Longrightarrow> uint (pixel_of_rand r) = r mod 255"
proof -
  assume r: "0 \<le> r"
  have "0 \<le> r mod 255" "r mod 255 < 255"
    by simp_all
  then have "take_bit 8 (r mod 255) = r mod 255"
    by (simp add: take_bit_int_eq_self)
  then show ?thesis
    using r by (simp add: pixel_of_rand_def c_rem_nonneg uint_word_of_int_eq)
qed

lemma pixel_of_rand_below_255:
  "0 \<le> r \<Longrightarrow> pixel_of_rand r \<le> 254 \<and> pixel_of_rand r \<noteq> 255"
proof -
  assume r: "0 \<le> r"
  have "r mod 255 < 255"
    by simp
  then have "uint (pixel_of_rand r) \<le> 254"
    using r by (simp add: uint_pixel_of_rand)
  then show ?thesis
    by (auto simp: word_le_def)
qed

text \<open>
  The contract of \<^verbatim>\<open>rand()\<close>, a value between 0 and \<^verbatim>\<open>RAND_MAX\<close>, is needed: on a negative
  value the remainder is negative and the conversion to a byte can give 255.
\<close>

lemma pixel_of_rand_minus_one: "pixel_of_rand (- 1) = 255"
  by (simp add: pixel_of_rand_def c_rem_def)

lemma draws_giving_255: "draws_giving m 255 = []"
  by (simp add: draws_giving_def filter_empty_conv pixel_of_rand_below_255)

subsection \<open>The loop\<close>

lemma unat_inc_below: "i < n \<Longrightarrow> unat (i + 1) = Suc (unat i)" for i n :: "32 word"
proof -
  assume "i < n"
  then have "unat i < unat n"
    by (simp add: word_less_nat_alt)
  moreover have "unat n < 2 ^ 32"
    using unsigned_less [of n] by simp
  ultimately have "unat i + 1 < 2 ^ 32"
    by simp
  then have "unat (i + 1) = unat i + unat (1 :: 32 word)"
    by (simp add: unat_add_lem [THEN iffD1])
  then show ?thesis
    by simp
qed

lemma fill_loop_result:
  "unat n \<le> length (img_raw s) \<Longrightarrow> i \<le> n \<Longrightarrow> fill_loop e n i s = Inr (fill_result e n i s)"
proof (induction e n i s rule: fill_loop.induct)
  case (1 e n i s)
  show ?case
  proof (cases "i < n")
    case False
    with "1.prems" have "i = n" by simp
    then show ?thesis
      by (simp add: fill_loop.simps [of e n n s] fill_result_def)
  next
    case True
    define k where "k = unat i"
    define v where "v = pixel_of_rand (rand_seq e (rand_calls s))"
    define s2 where "s2 = s\<lparr>rand_calls := Suc (rand_calls s), img_raw := (img_raw s)[k := v],
        img_raw_writes := img_raw_writes s @ [(k, v)]\<rparr>"
    have kn: "k < unat n"
      using True by (simp add: k_def word_less_nat_alt)
    have klen: "k < length (img_raw s)"
      using kn "1.prems" by simp
    have st: "store_img_raw (unat i) (pixel_of_rand (rand_seq e (rand_calls s)))
                (s\<lparr>rand_calls := Suc (rand_calls s)\<rparr>) = Inr s2"
      using klen by (simp add: store_img_raw_def s2_def k_def v_def)
    have inc: "unat (i + 1) = Suc k"
      using True by (simp add: unat_inc_below k_def)
    have le: "i + 1 \<le> n"
      using True by (rule inc_le)
    have r: "(rand_seq e (rand_calls s), s\<lparr>rand_calls := Suc (rand_calls s)\<rparr>) = rand e s"
      by (simp add: rand_def)
    have "length (img_raw s2) = length (img_raw s)"
      by (simp add: s2_def)
    then have rec: "fill_loop e n (i + 1) s2 = Inr (fill_result e n (i + 1) s2)"
      using "1.IH" [OF True r st] "1.prems" le
      by simp
    have a: "Suc (rand_calls s + (x - Suc k)) = rand_calls s + (x - k)"
      if "x \<in> set [Suc k ..< unat n]" for x
      using that by auto
    have m1: "map (\<lambda>j. pixel_of_rand (rand_seq e (Suc (rand_calls s + (j - Suc k))))) [Suc k ..< unat n]
        = map (\<lambda>j. pixel_of_rand (rand_seq e (rand_calls s + (j - k)))) [Suc k ..< unat n]"
      by (rule map_cong [OF refl]) (simp only: a)
    have m2: "map (\<lambda>j. (j, pixel_of_rand (rand_seq e (Suc (rand_calls s + (j - Suc k)))))) [Suc k ..< unat n]
        = map (\<lambda>j. (j, pixel_of_rand (rand_seq e (rand_calls s + (j - k))))) [Suc k ..< unat n]"
      by (rule map_cong [OF refl]) (simp only: a)
    have "fill_result e n (i + 1) s2 = fill_result e n i s"
      using kn klen
      by (simp add: fill_result_def inc s2_def k_def [symmetric] upt_conv_Cons
          take_Suc_conv_app_nth v_def m1 m2)
    then show ?thesis
      using True st rec by (simp add: fill_loop.simps [of e n i s] rand_def)
  qed
qed

text \<open>A bound beyond the array makes the loop store out of bounds.\<close>

lemma fill_loop_overrun:
  "length (img_raw s) < unat n \<Longrightarrow> i < n \<Longrightarrow> fill_loop e n i s = Inl Out_of_bounds"
proof (induction e n i s rule: fill_loop.induct)
  case (1 e n i s)
  show ?case
  proof (cases "unat i < length (img_raw s)")
    case False
    then show ?thesis
      using "1.prems" by (simp add: fill_loop.simps [of e n i s] rand_def store_img_raw_def)
  next
    case True
    define s2 where "s2 = s\<lparr>rand_calls := Suc (rand_calls s),
        img_raw := (img_raw s)[unat i := pixel_of_rand (rand_seq e (rand_calls s))],
        img_raw_writes := img_raw_writes s @ [(unat i, pixel_of_rand (rand_seq e (rand_calls s)))]\<rparr>"
    have r: "(rand_seq e (rand_calls s), s\<lparr>rand_calls := Suc (rand_calls s)\<rparr>) = rand e s"
      by (simp add: rand_def)
    have st: "store_img_raw (unat i) (pixel_of_rand (rand_seq e (rand_calls s)))
                (s\<lparr>rand_calls := Suc (rand_calls s)\<rparr>) = Inr s2"
      using True by (simp add: store_img_raw_def s2_def)
    have "unat (i + 1) = Suc (unat i)"
      using "1.prems" by (simp add: unat_inc_below)
    then have "unat (i + 1) < unat n"
      using True "1.prems" by simp
    then have "i + 1 < n"
      by (simp add: word_less_nat_alt)
    moreover have "length (img_raw s2) < unat n"
      using "1.prems" by (simp add: s2_def)
    ultimately have "fill_loop e n (i + 1) s2 = Inl Out_of_bounds"
      using "1.IH" [OF "1.prems"(2) r st] by simp
    then show ?thesis
      using "1.prems" st by (simp add: fill_loop.simps [of e n i s] rand_def)
  qed
qed

lemma word_cols_rows: "(word_of_int (cols * rows) :: 32 word) = 400000"
  by (simp add: cols_def rows_def)

lemma nat_cols_rows: "nat (cols * rows) = 400000" "nat (rows * cols) = 400000"
  by (simp_all add: cols_def rows_def)

lemma fill_eq:
  "length (img_raw s) = 400000 \<Longrightarrow> fill e s = Inr (fill_result e 400000 0 s)"
  unfolding fill_def word_cols_rows by (rule fill_loop_result) simp_all

lemma img_raw_fill_result:
  "unat n \<le> length (img_raw s) \<Longrightarrow>
   length (img_raw (fill_result e n 0 s)) = length (img_raw s) \<and>
   drop (unat n) (img_raw (fill_result e n 0 s)) = drop (unat n) (img_raw s)"
  by (simp add: fill_result_def)

lemma nth_img_raw_fill_result:
  "j < unat n \<Longrightarrow>
   img_raw (fill_result e n 0 s) ! j = pixel_of_rand (rand_seq e (rand_calls s + j))"
  by (simp add: fill_result_def nth_append)

lemma img_raw_writes_fill_result:
  "img_raw_writes (fill_result e n 0 s) =
   img_raw_writes s @ map (\<lambda>j. (j, pixel_of_rand (rand_seq e (rand_calls s + j)))) [0 ..< unat n]"
  by (simp add: fill_result_def)

lemma rand_calls_fill_result: "rand_calls (fill_result e n 0 s) = rand_calls s + unat n"
  by (simp add: fill_result_def)

lemma new_writes_fill_result:
  "drop (length (img_raw_writes s)) (img_raw_writes (fill_result e n 0 s)) =
     map (\<lambda>j. (j, pixel_of_rand (rand_seq e (rand_calls s + j)))) [0 ..< unat n] \<and>
   take (length (img_raw_writes s)) (img_raw_writes (fill_result e n 0 s)) = img_raw_writes s"
  by (simp add: img_raw_writes_fill_result)

lemma map_fst_new_writes: "map fst (map (\<lambda>j. (j, f j)) [0 ..< m]) = [0 ..< m]"
  by (simp add: comp_def)

lemma fill_loop_Inr:
  assumes "fill_loop e n 0 s = Inr s'"
  shows "unat n \<le> length (img_raw s) \<and> s' = fill_result e n 0 s"
proof (cases "unat n \<le> length (img_raw s)")
  case True
  then show ?thesis
    using assms by (simp add: fill_loop_result)
next
  case False
  then have "length (img_raw s) < unat n"
    by simp
  moreover from this have "0 < n"
    by (simp add: word_less_nat_alt)
  ultimately have "fill_loop e n 0 s = Inl Out_of_bounds"
    by (rule fill_loop_overrun)
  with assms show ?thesis
    by simp
qed

lemma img_raw_fill_result_full:
  "length (img_raw s) = 400000 \<Longrightarrow>
   img_raw (fill_result e 400000 0 s) =
     map (\<lambda>j. pixel_of_rand (rand_seq e (rand_calls s + j))) [0 ..< 400000]"
  by (simp add: fill_result_def)

text \<open>
  Claim C5. When the array holds at least \<open>n\<close> bytes, the loop with bound \<open>n\<close> ends
  normally after exactly \<open>n\<close> stores, to the indices 0, 1, ..., \<open>n - 1\<close> in this order,
  with one draw each; afterwards the array holds at each of these indices the byte stored
  there, and it keeps its length and its bytes from \<open>n\<close> on. For the program (an array of
  cols times rows = 400000 bytes and that bound) the stores are to the indices 0 to
  399999, all inside the array, and they replace the whole array.
\<close>

theorem fill_writes_each_index_once:
  "(unat n \<le> length (img_raw s) \<longrightarrow>
      (\<exists>s'. fill_loop e n 0 s = Inr s' \<and>
            map fst (drop (length (img_raw_writes s)) (img_raw_writes s')) = [0 ..< unat n] \<and>
            drop (length (img_raw_writes s)) (img_raw_writes s') =
              map (\<lambda>j. (j, img_raw s' ! j)) [0 ..< unat n] \<and>
            take (length (img_raw_writes s)) (img_raw_writes s') = img_raw_writes s \<and>
            (\<forall>j<unat n. img_raw s' ! j = pixel_of_rand (rand_seq e (rand_calls s + j))) \<and>
            length (img_raw s') = length (img_raw s) \<and>
            drop (unat n) (img_raw s') = drop (unat n) (img_raw s) \<and>
            rand_calls s' = rand_calls s + unat n)) \<and>
   (length (img_raw s) = nat (cols * rows) \<longrightarrow>
      (\<exists>s'. fill e s = Inr s' \<and>
            map fst (drop (length (img_raw_writes s)) (img_raw_writes s')) = [0 ..< 400000] \<and>
            take (length (img_raw_writes s)) (img_raw_writes s') = img_raw_writes s \<and>
            img_raw s' = map (\<lambda>j. pixel_of_rand (rand_seq e (rand_calls s + j))) [0 ..< 400000] \<and>
            length (img_raw s') = 400000))"
proof (intro conjI impI)
  assume len: "unat n \<le> length (img_raw s)"
  show "\<exists>s'. fill_loop e n 0 s = Inr s' \<and>
      map fst (drop (length (img_raw_writes s)) (img_raw_writes s')) = [0 ..< unat n] \<and>
      drop (length (img_raw_writes s)) (img_raw_writes s') =
        map (\<lambda>j. (j, img_raw s' ! j)) [0 ..< unat n] \<and>
      take (length (img_raw_writes s)) (img_raw_writes s') = img_raw_writes s \<and>
      (\<forall>j<unat n. img_raw s' ! j = pixel_of_rand (rand_seq e (rand_calls s + j))) \<and>
      length (img_raw s') = length (img_raw s) \<and>
      drop (unat n) (img_raw s') = drop (unat n) (img_raw s) \<and>
      rand_calls s' = rand_calls s + unat n"
  proof (intro exI conjI)
    show "fill_loop e n 0 s = Inr (fill_result e n 0 s)"
      using len by (simp add: fill_loop_result)
    show "map fst (drop (length (img_raw_writes s)) (img_raw_writes (fill_result e n 0 s)))
        = [0 ..< unat n]"
      by (simp only: new_writes_fill_result map_fst_new_writes)
    have "map (\<lambda>j. (j, img_raw (fill_result e n 0 s) ! j)) [0 ..< unat n]
        = map (\<lambda>j. (j, pixel_of_rand (rand_seq e (rand_calls s + j)))) [0 ..< unat n]"
      by (rule map_cong [OF refl]) (simp add: nth_img_raw_fill_result)
    then show "drop (length (img_raw_writes s)) (img_raw_writes (fill_result e n 0 s)) =
        map (\<lambda>j. (j, img_raw (fill_result e n 0 s) ! j)) [0 ..< unat n]"
      by (simp only: new_writes_fill_result)
    show "\<forall>j<unat n. img_raw (fill_result e n 0 s) ! j
        = pixel_of_rand (rand_seq e (rand_calls s + j))"
      by (simp add: nth_img_raw_fill_result)
  qed (simp_all add: new_writes_fill_result img_raw_fill_result [OF len] rand_calls_fill_result)
next
  assume "length (img_raw s) = nat (cols * rows)"
  then have len: "length (img_raw s) = 400000"
    by (simp only: nat_cols_rows)
  then have len': "unat (400000 :: 32 word) \<le> length (img_raw s)"
    by simp
  show "\<exists>s'. fill e s = Inr s' \<and>
      map fst (drop (length (img_raw_writes s)) (img_raw_writes s')) = [0 ..< 400000] \<and>
      take (length (img_raw_writes s)) (img_raw_writes s') = img_raw_writes s \<and>
      img_raw s' = map (\<lambda>j. pixel_of_rand (rand_seq e (rand_calls s + j))) [0 ..< 400000] \<and>
      length (img_raw s') = 400000"
  proof (intro exI conjI)
    show "fill e s = Inr (fill_result e 400000 0 s)"
      using len by (rule fill_eq)
    have "map fst (drop (length (img_raw_writes s)) (img_raw_writes (fill_result e 400000 0 s)))
        = [0 ..< unat (400000 :: 32 word)]"
      by (simp only: new_writes_fill_result map_fst_new_writes)
    then show "map fst (drop (length (img_raw_writes s)) (img_raw_writes (fill_result e 400000 0 s)))
        = [0 ..< 400000]"
      by simp
    show "img_raw (fill_result e 400000 0 s)
        = map (\<lambda>j. pixel_of_rand (rand_seq e (rand_calls s + j))) [0 ..< 400000]"
      using len by (rule img_raw_fill_result_full)
    show "length (img_raw (fill_result e 400000 0 s)) = 400000"
      using img_raw_fill_result [OF len', of e] len by simp
  qed (simp add: new_writes_fill_result)
qed

theorem fill_writes_each_index_once_witness:
  "unat (3 :: 32 word) \<le> length (img_raw state_four) \<and>
   (\<exists>s'. fill_loop env_ramp 3 0 state_four = Inr s' \<and>
         img_raw_writes s' = [(0, 254), (1, 0), (2, 1)] \<and>
         img_raw s' = [254, 0, 1, 7] \<and> rand_calls s' = 3) \<and>
   length (img_raw (startup env_ramp)) = nat (cols * rows) \<and>
   (\<exists>s'. fill env_ramp (startup env_ramp) = Inr s' \<and>
         map fst (img_raw_writes s') = [0 ..< 400000] \<and> length (img_raw s') = 400000 \<and>
         img_raw s' ! 0 = 254 \<and> img_raw s' ! 1 = 0 \<and> img_raw s' ! 399999 = 158)"
proof -
  have h1: "unat (3 :: 32 word) \<le> length (img_raw state_four)"
    by (simp add: state_four_def)
  have h2: "length (img_raw (startup env_ramp)) = nat (cols * rows)"
    by (simp add: startup_def namedWindow_def now_def)
  have w: "img_raw_writes (startup env_ramp) = []" "rand_calls (startup env_ramp) = 0"
    by (simp_all add: startup_def namedWindow_def now_def)
  have u: "[0 ..< 3] = [0, 1, 2]"
    by (simp add: upt_rec)
  have p: "pixel_of_rand 254 = 254" "pixel_of_rand 255 = 0" "pixel_of_rand 256 = 1"
    "pixel_of_rand 400253 = 158"
    by (simp_all add: pixel_of_rand_def c_rem_def)
  from fill_writes_each_index_once [THEN conjunct1, THEN mp, OF h1, of env_ramp]
  obtain s' where s': "fill_loop env_ramp 3 0 state_four = Inr s'"
    "drop (length (img_raw_writes state_four)) (img_raw_writes s') =
       map (\<lambda>j. (j, img_raw s' ! j)) [0 ..< unat (3 :: 32 word)]"
    "\<forall>j<unat (3 :: 32 word). img_raw s' ! j
       = pixel_of_rand (rand_seq env_ramp (rand_calls state_four + j))"
    "length (img_raw s') = length (img_raw state_four)"
    "drop (unat (3 :: 32 word)) (img_raw s') = drop (unat (3 :: 32 word)) (img_raw state_four)"
    "rand_calls s' = rand_calls state_four + unat (3 :: 32 word)"
    by blast
  have n: "img_raw s' ! 0 = 254" "img_raw s' ! 1 = 0" "img_raw s' ! 2 = 1"
    using s'(3) p by (simp_all add: state_four_def env_ramp_def)
  have "img_raw s' = take 3 (img_raw s') @ drop 3 (img_raw s')"
    by simp
  also have "take 3 (img_raw s') = map ((!) (img_raw s')) [0 ..< 3]"
    using s'(4) by (intro take_upt [symmetric] nth_equalityI)
      (simp_all add: state_four_def)
  also have "\<dots> = [254, 0, 1]"
    using n by (simp add: u)
  also have "drop 3 (img_raw s') = [7]"
    using s'(5) by (simp add: state_four_def)
  finally have buf: "img_raw s' = [254, 0, 1, 7]"
    by simp
  have "img_raw_writes s' = [(0, 254), (1, 0), (2, 1)]"
    using s'(2) n by (simp add: state_four_def u)
  moreover have "rand_calls s' = 3"
    using s'(6) by (simp add: state_four_def)
  ultimately have a: "\<exists>s'. fill_loop env_ramp 3 0 state_four = Inr s' \<and>
         img_raw_writes s' = [(0, 254), (1, 0), (2, 1)] \<and>
         img_raw s' = [254, 0, 1, 7] \<and> rand_calls s' = 3"
    using s'(1) buf by (intro exI [of _ s']) simp
  from fill_writes_each_index_once [THEN conjunct2, THEN mp, OF h2]
  obtain t where t: "fill env_ramp (startup env_ramp) = Inr t"
    "map fst (drop (length (img_raw_writes (startup env_ramp))) (img_raw_writes t)) = [0 ..< 400000]"
    "img_raw t = map (\<lambda>j. pixel_of_rand (rand_seq env_ramp (rand_calls (startup env_ramp) + j)))
       [0 ..< 400000]"
    "length (img_raw t) = 400000"
    by blast
  have rs: "rand_seq env_ramp k = 254 + int k" for k
    by (simp add: env_ramp_def)
  have "img_raw t ! 0 = 254 \<and> img_raw t ! 1 = 0 \<and> img_raw t ! 399999 = 158"
    by (simp only: t(3)) (simp add: w rs p)
  then have b: "\<exists>s'. fill env_ramp (startup env_ramp) = Inr s' \<and>
         map fst (img_raw_writes s') = [0 ..< 400000] \<and> length (img_raw s') = 400000 \<and>
         img_raw s' ! 0 = 254 \<and> img_raw s' ! 1 = 0 \<and> img_raw s' ! 399999 = 158"
    using t by (intro exI [of _ t]) (simp add: w)
  show ?thesis
    using h1 h2 a b by (simp only: simp_thms)
qed

text \<open>
  Claim C1. The bytes are not uniform on 0 to 255: of the values 0 to 32767 of \<^verbatim>\<open>rand()\<close>
  none gives the byte 255, while the byte 0 comes from 0 and again from 255.
\<close>

theorem byte_255_has_no_draw:
  "draws_giving 32767 255 = [] \<and> 0 \<in> set (draws_giving 32767 0) \<and>
   255 \<in> set (draws_giving 32767 0) \<and> pixel_of_rand 254 = 254 \<and> pixel_of_rand 255 = 0"
  by (simp add: draws_giving_255) (simp add: draws_giving_def pixel_of_rand_def c_rem_def)

section \<open>Display\<close>

lemma present_eq:
  "nat (mat_rows v * mat_cols v) \<le> length (deref s (mat_data v)) \<Longrightarrow>
   present v w s =
     Inr (s\<lparr>windows := (windows s)(w \<mapsto> Showing (view_image v s)),
            displayed := displayed s @ [view_image v s]\<rparr>)"
  by (simp add: present_def imshow_def waitKey_def view_image_def Let_def)

lemma present_Inr:
  "present v w s = Inr s' \<Longrightarrow>
   nat (mat_rows v * mat_cols v) \<le> length (deref s (mat_data v)) \<and>
   s' = s\<lparr>windows := (windows s)(w \<mapsto> Showing (view_image v s)),
          displayed := displayed s @ [view_image v s]\<rparr>"
  by (simp add: present_def imshow_def waitKey_def view_image_def Let_def split: if_splits)

text \<open>
  Claim C6. Handing a view that fits its block to \<open>present\<close>, once or twice in a row,
  succeeds and changes nothing but the display: restoring the windows and the log of
  displayed images gives back the state it started from, so every byte of \<^verbatim>\<open>img_raw\<close>,
  the timestamp, the tally and the console are as before. The second call shows the
  same image as the first. The dimensions are the constants \<open>rows\<close> and \<open>cols\<close> and the
  fields of the view, which no function of the program writes.
\<close>

theorem present_changes_only_the_display:
  assumes "nat (mat_rows v * mat_cols v) \<le> length (deref s (mat_data v))"
  shows "\<exists>s1 s2. present v w s = Inr s1 \<and> present v w s1 = Inr s2 \<and>
     s1\<lparr>windows := windows s, displayed := displayed s\<rparr> = s \<and>
     s2\<lparr>windows := windows s, displayed := displayed s\<rparr> = s \<and>
     img_raw s1 = img_raw s \<and> img_raw s2 = img_raw s \<and>
     monitor_fields s1 = monitor_fields s \<and> monitor_fields s2 = monitor_fields s \<and>
     windows s1 = (windows s)(w \<mapsto> Showing (view_image v s)) \<and>
     windows s2 = windows s1"
proof -
  define s1 where "s1 = s\<lparr>windows := (windows s)(w \<mapsto> Showing (view_image v s)),
      displayed := displayed s @ [view_image v s]\<rparr>"
  define s2 where "s2 = s1\<lparr>windows := (windows s1)(w \<mapsto> Showing (view_image v s1)),
      displayed := displayed s1 @ [view_image v s1]\<rparr>"
  have d: "deref s1 (mat_data v) = deref s (mat_data v)"
    by (simp add: s1_def deref_def split: data_ptr.splits)
  then have vi: "view_image v s1 = view_image v s"
    by (simp add: view_image_def)
  have p1: "present v w s = Inr s1"
    using assms by (simp add: present_eq s1_def)
  have p2: "present v w s1 = Inr s2"
    using assms by (simp add: present_eq d s2_def)
  have "s1\<lparr>windows := windows s, displayed := displayed s\<rparr> = s"
    by (simp add: s1_def)
  moreover have "s2\<lparr>windows := windows s, displayed := displayed s\<rparr> = s"
    by (simp add: s2_def s1_def)
  moreover have "img_raw s1 = img_raw s \<and> img_raw s2 = img_raw s"
    by (simp add: s2_def s1_def)
  moreover have "monitor_fields s1 = monitor_fields s \<and> monitor_fields s2 = monitor_fields s"
    by (simp add: s2_def s1_def monitor_fields_def)
  moreover have "windows s1 = (windows s)(w \<mapsto> Showing (view_image v s))"
    by (simp add: s1_def)
  moreover have "windows s2 = windows s1"
    by (simp add: s2_def vi) (simp add: s1_def)
  ultimately show ?thesis
    using p1 p2 by (intro exI [of _ s1] exI [of _ s2]) simp
qed

theorem present_changes_only_the_display_witness:
  "nat (mat_rows (Mat_wrap 2 2 CV_8UC1 Ptr_img_raw) * mat_cols (Mat_wrap 2 2 CV_8UC1 Ptr_img_raw))
     \<le> length (deref state_four (mat_data (Mat_wrap 2 2 CV_8UC1 Ptr_img_raw))) \<and>
   (\<exists>s1 s2. present (Mat_wrap 2 2 CV_8UC1 Ptr_img_raw) window_title state_four = Inr s1 \<and>
      present (Mat_wrap 2 2 CV_8UC1 Ptr_img_raw) window_title s1 = Inr s2 \<and>
      img_raw s1 = [7, 7, 7, 7] \<and> img_raw s2 = [7, 7, 7, 7] \<and>
      windows s2 window_title
        = Some (Showing \<lparr>im_rows = 2, im_cols = 2, im_pixels = [7, 7, 7, 7]\<rparr>))"
proof -
  define v where "v = Mat_wrap 2 2 CV_8UC1 Ptr_img_raw"
  have h: "nat (mat_rows v * mat_cols v) \<le> length (deref state_four (mat_data v))"
    by (simp add: v_def Mat_wrap_def deref_def state_four_def)
  have vi: "view_image v state_four = \<lparr>im_rows = 2, im_cols = 2, im_pixels = [7, 7, 7, 7]\<rparr>"
    by (simp add: view_image_def v_def Mat_wrap_def deref_def state_four_def)
  from present_changes_only_the_display [OF h, of window_title]
  obtain s1 s2 where s: "present v window_title state_four = Inr s1"
    "present v window_title s1 = Inr s2" "img_raw s1 = img_raw state_four"
    "img_raw s2 = img_raw state_four"
    "windows s1 = (windows state_four)(window_title \<mapsto> Showing (view_image v state_four))"
    "windows s2 = windows s1"
    by blast
  have "img_raw s1 = [7, 7, 7, 7] \<and> img_raw s2 = [7, 7, 7, 7]"
    using s(3,4) by (simp add: state_four_def)
  moreover have "windows s2 window_title
        = Some (Showing \<lparr>im_rows = 2, im_cols = 2, im_pixels = [7, 7, 7, 7]\<rparr>)"
    using s(5,6) by (simp add: vi)
  ultimately have "\<exists>s1 s2. present v window_title state_four = Inr s1 \<and>
      present v window_title s1 = Inr s2 \<and>
      img_raw s1 = [7, 7, 7, 7] \<and> img_raw s2 = [7, 7, 7, 7] \<and>
      windows s2 window_title
        = Some (Showing \<lparr>im_rows = 2, im_cols = 2, im_pixels = [7, 7, 7, 7]\<rparr>)"
    using s(1,2) by (intro exI [of _ s1] exI [of _ s2]) simp
  then show ?thesis
    using h by (simp only: v_def [symmetric] simp_thms)
qed

section \<open>FPS calculation\<close>

lemma rate_monitor_eq:
  "rate_monitor e s =
     (if ns_per_second < sint (clock_seq e (clock_calls s) - time_of_last_fps_calculation s)
      then s\<lparr>clock_calls := clock_calls s + 2,
              time_of_last_fps_calculation := clock_seq e (Suc (clock_calls s)),
              cout := cout s @ [sint (frames_since_last_fps_calculation s)],
              frames_since_last_fps_calculation := 0\<rparr>
      else s\<lparr>clock_calls := Suc (clock_calls s),
              frames_since_last_fps_calculation := frames_since_last_fps_calculation s + 1\<rparr>)"
  by (simp add: rate_monitor_def now_def Let_def)

lemma rate_monitor_frame:
  "img_raw (rate_monitor e s) = img_raw s"
  "global_img_data (rate_monitor e s) = global_img_data s"
  "rand_calls (rate_monitor e s) = rand_calls s"
  "img_raw_writes (rate_monitor e s) = img_raw_writes s"
  "windows (rate_monitor e s) = windows s"
  "displayed (rate_monitor e s) = displayed s"
  by (simp_all add: rate_monitor_eq)

lemma monitor_fields_rate_monitor:
  "monitor_fields s1 = monitor_fields s \<Longrightarrow>
   monitor_fields (rate_monitor e s1) = monitor_fields (rate_monitor e s)"
  by (simp add: monitor_fields_def rate_monitor_eq)

text \<open>
  The 64-bit difference of two readings is their difference as numbers whenever that
  lies between \<open>- 2 ^ 63\<close> and \<open>2 ^ 63\<close>.
\<close>

lemma sint_diff_in_range:
  "- (2 ^ 63) \<le> sint a - sint b \<Longrightarrow> sint a - sint b < 2 ^ 63 \<Longrightarrow>
   sint (a - b) = sint a - sint b" for a b :: "64 word"
proof -
  assume "- (2 ^ 63) \<le> sint a - sint b" and "sint a - sint b < 2 ^ 63"
  then have "signed_take_bit 63 (sint a - sint b) = sint a - sint b"
    by (simp add: signed_take_bit_int_eq_self)
  then show ?thesis
    by (simp add: sint_word_diff)
qed

text \<open>
  Claim C3, with the elapsed time as the program measures it: the signed 64-bit
  difference between the reading and the timestamp, which is their difference as
  numbers whenever that lies between \<open>- 2 ^ 63\<close> and \<open>2 ^ 63\<close> nanoseconds. A pass that
  measures exactly one second prints nothing and increments the tally; one that measures
  one second and any positive amount prints the tally, resets it and takes a new
  timestamp. A line is printed exactly when the measured time is greater than one
  second.
\<close>

theorem report_only_after_more_than_a_second:
  "(sint (clock_seq e (clock_calls s) - time_of_last_fps_calculation s) = ns_per_second \<longrightarrow>
      cout (rate_monitor e s) = cout s \<and>
      frames_since_last_fps_calculation (rate_monitor e s) =
        frames_since_last_fps_calculation s + 1 \<and>
      time_of_last_fps_calculation (rate_monitor e s) = time_of_last_fps_calculation s) \<and>
   (0 < eps \<and>
    sint (clock_seq e (clock_calls s) - time_of_last_fps_calculation s) = ns_per_second + eps \<longrightarrow>
      cout (rate_monitor e s) = cout s @ [sint (frames_since_last_fps_calculation s)] \<and>
      frames_since_last_fps_calculation (rate_monitor e s) = 0 \<and>
      time_of_last_fps_calculation (rate_monitor e s) = clock_seq e (Suc (clock_calls s))) \<and>
   (cout (rate_monitor e s) \<noteq> cout s \<longleftrightarrow>
      ns_per_second < sint (clock_seq e (clock_calls s) - time_of_last_fps_calculation s)) \<and>
   (- (2 ^ 63) \<le> sint (clock_seq e (clock_calls s)) - sint (time_of_last_fps_calculation s) \<and>
    sint (clock_seq e (clock_calls s)) - sint (time_of_last_fps_calculation s) < 2 ^ 63 \<longrightarrow>
      sint (clock_seq e (clock_calls s) - time_of_last_fps_calculation s) =
        sint (clock_seq e (clock_calls s)) - sint (time_of_last_fps_calculation s))"
  by (simp add: rate_monitor_eq sint_diff_in_range)

theorem report_only_after_more_than_a_second_witness:
  "sint (clock_seq (env_clock [1000000000]) (clock_calls state_four)
      - time_of_last_fps_calculation state_four) = ns_per_second \<and>
   cout (rate_monitor (env_clock [1000000000]) state_four) = [] \<and>
   frames_since_last_fps_calculation (rate_monitor (env_clock [1000000000]) state_four) = 1 \<and>
   (0 :: int) < 1 \<and>
   sint (clock_seq (env_clock [1000000001, 1000000005]) (clock_calls state_four)
      - time_of_last_fps_calculation state_four) = ns_per_second + 1 \<and>
   cout (rate_monitor (env_clock [1000000001, 1000000005]) state_four) = [0] \<and>
   frames_since_last_fps_calculation (rate_monitor (env_clock [1000000001, 1000000005]) state_four) = 0 \<and>
   time_of_last_fps_calculation (rate_monitor (env_clock [1000000001, 1000000005]) state_four)
      = 1000000005 \<and>
   - (2 ^ 63) \<le> sint (clock_seq (env_clock [1000000000]) (clock_calls state_four))
      - sint (time_of_last_fps_calculation state_four) \<and>
   sint (clock_seq (env_clock [1000000000]) (clock_calls state_four))
      - sint (time_of_last_fps_calculation state_four) < 2 ^ 63 \<and>
   sint (clock_seq (env_clock [1000000000]) (clock_calls state_four))
      - sint (time_of_last_fps_calculation state_four) = 1000000000"
proof -
  have h1: "sint (clock_seq (env_clock [1000000000]) (clock_calls state_four)
      - time_of_last_fps_calculation state_four) = ns_per_second"
    by (simp add: env_clock_def state_four_def ns_per_second_def)
  have h2: "(0 :: int) < 1 \<and>
      sint (clock_seq (env_clock [1000000001, 1000000005]) (clock_calls state_four)
      - time_of_last_fps_calculation state_four) = ns_per_second + 1"
    by (simp add: env_clock_def state_four_def ns_per_second_def)
  have h3: "- (2 ^ 63) \<le> sint (clock_seq (env_clock [1000000000]) (clock_calls state_four))
      - sint (time_of_last_fps_calculation state_four) \<and>
    sint (clock_seq (env_clock [1000000000]) (clock_calls state_four))
      - sint (time_of_last_fps_calculation state_four) < 2 ^ 63"
    by (simp add: env_clock_def state_four_def)
  have c: "clock_seq (env_clock [1000000001, 1000000005]) (Suc (clock_calls state_four)) = 1000000005"
    by (simp add: env_clock_def state_four_def)
  have t: "cout state_four = []" "frames_since_last_fps_calculation state_four = 0"
    by (simp_all add: state_four_def)
  have a: "cout (rate_monitor (env_clock [1000000000]) state_four) = [] \<and>
      frames_since_last_fps_calculation (rate_monitor (env_clock [1000000000]) state_four) = 1"
    using report_only_after_more_than_a_second [THEN conjunct1, THEN mp, OF h1]
    by (simp add: t)
  have b: "cout (rate_monitor (env_clock [1000000001, 1000000005]) state_four) = [0] \<and>
      frames_since_last_fps_calculation (rate_monitor (env_clock [1000000001, 1000000005]) state_four) = 0 \<and>
      time_of_last_fps_calculation (rate_monitor (env_clock [1000000001, 1000000005]) state_four)
        = 1000000005"
    using report_only_after_more_than_a_second [THEN conjunct2, THEN conjunct1, THEN mp, OF h2]
    by (simp add: c t)
  have d: "sint (clock_seq (env_clock [1000000000]) (clock_calls state_four))
      - sint (time_of_last_fps_calculation state_four) = 1000000000"
    using report_only_after_more_than_a_second
      [THEN conjunct2, THEN conjunct2, THEN conjunct2, THEN mp, OF h3] h1
    by (simp add: ns_per_second_def)
  show ?thesis
    using h1 h2 h3 a b d by (simp only: simp_thms)
qed

text \<open>
  The difference of the two readings as numbers is not what decides. With the timestamp
  at \<open>- 2 ^ 63\<close> and the reading 1, that difference is one second and 9223372035854775809
  nanoseconds more, yet the 64-bit difference is negative: nothing is printed and the
  tally is incremented.
\<close>

theorem elapsed_beyond_64_bits_counterexample:
  "sint (clock_seq (env_clock [1]) (clock_calls state_epoch))
     - sint (time_of_last_fps_calculation state_epoch) = ns_per_second + 9223372035854775809 \<and>
   sint (clock_seq (env_clock [1]) (clock_calls state_epoch)
     - time_of_last_fps_calculation state_epoch) = - 9223372036854775807 \<and>
   cout (rate_monitor (env_clock [1]) state_epoch) = cout state_epoch \<and>
   frames_since_last_fps_calculation (rate_monitor (env_clock [1]) state_epoch)
     = frames_since_last_fps_calculation state_epoch + 1"
  by (simp add: rate_monitor_eq env_clock_def state_epoch_def state_four_def ns_per_second_def)

subsection \<open>A window of passes\<close>

lemma ticks_without_report:
  "\<forall>j<N. sint (clock_seq e (clock_calls s + j) - time_of_last_fps_calculation s) \<le> ns_per_second \<Longrightarrow>
   (rate_monitor e ^^ N) s =
     s\<lparr>clock_calls := clock_calls s + N,
       frames_since_last_fps_calculation := frames_since_last_fps_calculation s + of_nat N\<rparr>"
proof (induction N)
  case 0
  show ?case by simp
next
  case (Suc N)
  then have "(rate_monitor e ^^ N) s =
     s\<lparr>clock_calls := clock_calls s + N,
       frames_since_last_fps_calculation := frames_since_last_fps_calculation s + of_nat N\<rparr>"
    by simp
  moreover have "\<not> ns_per_second
      < sint (clock_seq e (clock_calls s + N) - time_of_last_fps_calculation s)"
    using Suc.prems by (simp add: not_less)
  ultimately have "rate_monitor e ((rate_monitor e ^^ N) s) =
     s\<lparr>clock_calls := clock_calls s + Suc N,
       frames_since_last_fps_calculation := frames_since_last_fps_calculation s + of_nat (Suc N)\<rparr>"
    by (simp add: rate_monitor_eq add.assoc)
  then show ?case
    by (simp only: funpow.simps comp_apply)
qed

lemma report_after_ticks:
  assumes "\<forall>j<N. sint (clock_seq e (clock_calls s + j) - time_of_last_fps_calculation s)
      \<le> ns_per_second"
    and "ns_per_second < sint (clock_seq e (clock_calls s + N) - time_of_last_fps_calculation s)"
  shows "(rate_monitor e ^^ Suc N) s =
     s\<lparr>clock_calls := clock_calls s + N + 2,
       time_of_last_fps_calculation := clock_seq e (clock_calls s + N + 1),
       cout := cout s @ [sint (frames_since_last_fps_calculation s + of_nat N)],
       frames_since_last_fps_calculation := 0\<rparr>"
proof -
  have "rate_monitor e ((rate_monitor e ^^ N) s) =
     s\<lparr>clock_calls := clock_calls s + N + 2,
       time_of_last_fps_calculation := clock_seq e (clock_calls s + N + 1),
       cout := cout s @ [sint (frames_since_last_fps_calculation s + of_nat N)],
       frames_since_last_fps_calculation := 0\<rparr>"
    using assms(2) by (simp add: ticks_without_report [OF assms(1)] rate_monitor_eq)
  then show ?thesis
    by (simp only: funpow.simps comp_apply)
qed

lemma sint_of_nat_small: "N < 2 ^ 31 \<Longrightarrow> sint (of_nat N :: 32 word) = int N"
proof -
  assume "N < 2 ^ 31"
  then have "int N < 2 ^ 31"
    by (metis of_nat_less_iff of_nat_numeral of_nat_power)
  then have "signed_take_bit 31 (int N) = int N"
    by (simp add: signed_take_bit_int_eq_self)
  moreover have "sint (of_nat N :: 32 word) = signed_take_bit 31 (int N)"
    using sint_sbintrunc' [of "int N", where 'a = 32] by simp
  ultimately show ?thesis
    by simp
qed

lemma sint_inc: "sint w < 2147483647 \<Longrightarrow> sint (w + 1) = sint w + 1" for w :: "32 word"
proof -
  assume a: "sint w < 2147483647"
  have "- (2 ^ 31) \<le> sint w"
    using sint_ge [of w] by simp
  then have "signed_take_bit 31 (sint w + 1) = sint w + 1"
    using a by (simp add: signed_take_bit_int_eq_self)
  then show ?thesis
    by (simp add: sint_word_ariths)
qed

lemma sint_below_max: "w \<noteq> 2147483647 \<Longrightarrow> sint w < 2147483647" for w :: "32 word"
proof -
  assume a: "w \<noteq> 2147483647"
  have "sint w < 2 ^ 31"
    using sint_lt [of w] by simp
  moreover have "sint w \<noteq> 2147483647"
  proof
    assume "sint w = 2147483647"
    then have "word_of_int (sint w) = (word_of_int 2147483647 :: 32 word)"
      by simp
    then show False
      using a by simp
  qed
  ultimately show ?thesis
    by simp
qed

text \<open>
  Claim C2, for \<open>N\<close> below \<open>2 ^ 31\<close> and the elapsed time as the program measures it (the
  signed 64-bit difference between the reading and the timestamp). From a tally of 0,
  \<open>N\<close> passes that measure at most one second print nothing, and the next pass, measuring
  more than one second, prints \<open>N\<close>, resets the tally to 0 and sets the timestamp to the
  reading it takes then (line 105), the latest reading of the clock.
\<close>

theorem fps_report_counts_ticks:
  assumes "N < 2 ^ 31"
    and "frames_since_last_fps_calculation s = 0"
    and "\<forall>j<N. sint (clock_seq e (clock_calls s + j) - time_of_last_fps_calculation s)
      \<le> ns_per_second"
    and "ns_per_second < sint (clock_seq e (clock_calls s + N) - time_of_last_fps_calculation s)"
  shows "cout ((rate_monitor e ^^ N) s) = cout s \<and>
     cout ((rate_monitor e ^^ Suc N) s) = cout s @ [int N] \<and>
     frames_since_last_fps_calculation ((rate_monitor e ^^ Suc N) s) = 0 \<and>
     time_of_last_fps_calculation ((rate_monitor e ^^ Suc N) s) = clock_seq e (clock_calls s + N + 1) \<and>
     clock_calls ((rate_monitor e ^^ Suc N) s) = clock_calls s + N + 2"
proof -
  have "sint (frames_since_last_fps_calculation s + of_nat N) = int N"
    using assms(1,2) by (simp add: sint_of_nat_small)
  then show ?thesis
    by (simp only: ticks_without_report [OF assms(3)] report_after_ticks [OF assms(3,4)]) simp
qed

theorem fps_report_counts_ticks_witness:
  "(2 :: nat) < 2 ^ 31 \<and> frames_since_last_fps_calculation state_four = 0 \<and>
   sint (clock_seq (env_clock [5, 1000000000, 1000000001, 1000000007]) (clock_calls state_four + 0)
     - time_of_last_fps_calculation state_four) \<le> ns_per_second \<and>
   sint (clock_seq (env_clock [5, 1000000000, 1000000001, 1000000007]) (clock_calls state_four + 1)
     - time_of_last_fps_calculation state_four) \<le> ns_per_second \<and>
   ns_per_second
     < sint (clock_seq (env_clock [5, 1000000000, 1000000001, 1000000007]) (clock_calls state_four + 2)
     - time_of_last_fps_calculation state_four) \<and>
   cout ((rate_monitor (env_clock [5, 1000000000, 1000000001, 1000000007]) ^^ 3) state_four) = [2] \<and>
   frames_since_last_fps_calculation
     ((rate_monitor (env_clock [5, 1000000000, 1000000001, 1000000007]) ^^ 3) state_four) = 0 \<and>
   time_of_last_fps_calculation
     ((rate_monitor (env_clock [5, 1000000000, 1000000001, 1000000007]) ^^ 3) state_four) = 1000000007"
proof -
  define e where "e = env_clock [5, 1000000000, 1000000001, 1000000007]"
  note defs = e_def env_clock_def state_four_def ns_per_second_def
  have h1: "(2 :: nat) < 2 ^ 31"
    by simp
  have h2: "frames_since_last_fps_calculation state_four = 0"
    by (simp add: state_four_def)
  have t0: "sint (clock_seq e (clock_calls state_four + 0)
      - time_of_last_fps_calculation state_four) \<le> ns_per_second"
    by (simp add: defs)
  have t1: "sint (clock_seq e (clock_calls state_four + 1)
      - time_of_last_fps_calculation state_four) \<le> ns_per_second"
    by (simp add: defs)
  have h3: "\<forall>j<2. sint (clock_seq e (clock_calls state_four + j)
      - time_of_last_fps_calculation state_four) \<le> ns_per_second"
  proof (intro allI impI)
    fix j :: nat
    assume "j < 2"
    then have "j = 0 \<or> j = 1"
      by auto
    then show "sint (clock_seq e (clock_calls state_four + j)
        - time_of_last_fps_calculation state_four) \<le> ns_per_second"
      using t0 t1 by auto
  qed
  have h4: "ns_per_second < sint (clock_seq e (clock_calls state_four + 2)
      - time_of_last_fps_calculation state_four)"
    by (simp add: defs)
  have three: "Suc 2 = 3"
    by simp
  have c3: "clock_seq e (clock_calls state_four + 2 + 1) = 1000000007"
    by (simp add: defs)
  from fps_report_counts_ticks [OF h1 h2 h3 h4]
  have "cout ((rate_monitor e ^^ 3) state_four) = [2] \<and>
     frames_since_last_fps_calculation ((rate_monitor e ^^ 3) state_four) = 0 \<and>
     time_of_last_fps_calculation ((rate_monitor e ^^ 3) state_four) = 1000000007"
    by (simp only: three c3) (simp add: state_four_def)
  then show ?thesis
    using h1 h2 t0 t1 h4 by (simp only: e_def [symmetric] simp_thms)
qed

section \<open>The loop\<close>

subsection \<open>One pass\<close>

lemma monitor_fields_fill_result: "monitor_fields (fill_result e n i s) = monitor_fields s"
  by (simp add: monitor_fields_def fill_result_def)

lemma iteration_Inr:
  assumes "iteration e s = Inr s'"
  shows "\<exists>s2. s' = rate_monitor e s2 \<and> monitor_fields s2 = monitor_fields s"
proof -
  from assms obtain s1 where f: "fill e s = Inr s1"
    by (auto simp: iteration_def split: sum.splits)
  with assms obtain s2 where p: "present (Mat_wrap rows cols CV_8UC1 Ptr_img_raw) window_title s1 = Inr s2"
    and r: "s' = rate_monitor e s2"
    by (auto simp: iteration_def Let_def split: sum.splits)
  from f have "s1 = fill_result e (word_of_int (cols * rows)) 0 s"
    unfolding fill_def by (simp add: fill_loop_Inr)
  then have "monitor_fields s1 = monitor_fields s"
    by (simp only: monitor_fields_fill_result)
  moreover from p have "monitor_fields s2 = monitor_fields s1"
    by (auto dest!: present_Inr simp: monitor_fields_def)
  ultimately show ?thesis
    using r by auto
qed

lemma iteration_monitor:
  "iteration e s = Inr s' \<Longrightarrow> monitor_fields s' = monitor_fields (rate_monitor e s)"
  by (auto dest!: iteration_Inr intro: monitor_fields_rate_monitor)

lemma iteration_eq:
  assumes "length (img_raw s) = 400000"
  shows "iteration e s =
     Inr (rate_monitor e
       ((fill_result e 400000 0 s)
          \<lparr>windows := (windows s)(window_title \<mapsto> Showing (frame_image (fill_result e 400000 0 s))),
           displayed := displayed s @ [frame_image (fill_result e 400000 0 s)]\<rparr>))"
proof -
  define s1 where "s1 = fill_result e 400000 0 s"
  define img where "img = Mat_wrap rows cols CV_8UC1 Ptr_img_raw"
  have f: "fill e s = Inr s1"
    using assms by (simp add: fill_eq s1_def)
  have len: "length (img_raw s1) = 400000"
    using assms by (simp add: s1_def fill_result_def)
  have n: "nat (mat_rows img * mat_cols img) = 400000"
    by (simp add: img_def Mat_wrap_def nat_cols_rows)
  have d: "deref s1 (mat_data img) = img_raw s1"
    by (simp add: img_def Mat_wrap_def deref_def)
  have v: "view_image img s1 = frame_image s1"
    by (simp add: view_image_def frame_image_def n d len) (simp add: img_def Mat_wrap_def)
  have "nat (mat_rows img * mat_cols img) \<le> length (deref s1 (mat_data img))"
    by (simp only: n d len)
  then have p: "present img window_title s1 =
      Inr (s1\<lparr>windows := (windows s1)(window_title \<mapsto> Showing (frame_image s1)),
             displayed := displayed s1 @ [frame_image s1]\<rparr>)"
    by (simp only: present_eq v)
  have "windows s1 = windows s" "displayed s1 = displayed s"
    by (simp_all add: s1_def fill_result_def)
  with f p show ?thesis
    by (simp add: iteration_def Let_def img_def [symmetric] s1_def [symmetric])
qed

lemma iteration_fields:
  assumes "length (img_raw s) = 400000" and "iteration e s = Inr s'"
  shows "img_raw s' = img_raw (fill_result e 400000 0 s)"
    and "displayed s' = displayed s @ [frame_image (fill_result e 400000 0 s)]"
    and "windows s' = (windows s)(window_title \<mapsto> Showing (frame_image (fill_result e 400000 0 s)))"
    and "img_raw_writes s' = img_raw_writes (fill_result e 400000 0 s)"
    and "rand_calls s' = rand_calls s + 400000"
  using assms(2) unfolding iteration_eq [OF assms(1)]
  by (auto simp: rate_monitor_frame rand_calls_fill_result)

lemma length_img_raw_iteration:
  "length (img_raw s) = 400000 \<Longrightarrow> iteration e s = Inr s' \<Longrightarrow> length (img_raw s') = 400000"
  using img_raw_fill_result [of 400000 s e] by (simp add: iteration_fields(1))

subsection \<open>Any number of passes, from the start\<close>

lemma iterations_snoc:
  "iterations e (Suc k) s =
     (case iterations e k s of Inl x \<Rightarrow> Inl x | Inr s1 \<Rightarrow> iteration e s1)"
proof (induction k arbitrary: s)
  case 0
  show ?case
    by (simp split: sum.splits)
next
  case (Suc k)
  show ?case
  proof (cases "iteration e s")
    case (Inl x)
    then show ?thesis
      by simp
  next
    case (Inr s1)
    then have "iterations e (Suc (Suc k)) s = iterations e (Suc k) s1"
      by (simp only: iterations.simps(2) [of e "Suc k" s] sum.case)
    also have "\<dots> = (case iterations e k s1 of Inl x \<Rightarrow> Inl x | Inr s2 \<Rightarrow> iteration e s2)"
      by (rule Suc.IH)
    also have "iterations e k s1 = iterations e (Suc k) s"
      using Inr by simp
    finally show ?thesis .
  qed
qed

lemma iterations_monitor:
  "iterations e k s = Inr s' \<Longrightarrow>
   monitor_fields s' = monitor_fields ((rate_monitor e ^^ k) s)"
proof (induction k arbitrary: s')
  case 0
  then show ?case by simp
next
  case (Suc k)
  from Suc.prems obtain s1 where s1: "iterations e k s = Inr s1" "iteration e s1 = Inr s'"
    by (auto simp only: iterations_snoc split: sum.splits)
  have "monitor_fields s' = monitor_fields (rate_monitor e s1)"
    using s1(2) by (rule iteration_monitor)
  also have "\<dots> = monitor_fields (rate_monitor e ((rate_monitor e ^^ k) s))"
    using Suc.IH [OF s1(1)] by (rule monitor_fields_rate_monitor)
  finally show ?case
    by (simp only: funpow.simps comp_apply)
qed

lemma startup_fields:
  "time_of_last_fps_calculation (startup e) = clock_seq e 0"
  "frames_since_last_fps_calculation (startup e) = 0"
  "clock_calls (startup e) = Suc 0"
  "cout (startup e) = []"
  "displayed (startup e) = []"
  "img_raw_writes (startup e) = []"
  "rand_calls (startup e) = 0"
  "windows (startup e) = (\<lambda>w. None)(window_title \<mapsto> Blank)"
  "img_raw (startup e) = replicate 400000 0"
  by (simp_all add: startup_def namedWindow_def now_def nat_cols_rows)

lemma length_img_raw_startup: "length (img_raw (startup e)) = 400000"
  by (simp add: startup_def namedWindow_def now_def nat_cols_rows)

lemma iterations_invariant:
  assumes "P 0 (startup e)"
    and "\<And>k s s'. P k s \<Longrightarrow> length (img_raw s) = 400000 \<Longrightarrow> iteration e s = Inr s' \<Longrightarrow> P (Suc k) s'"
  shows "\<exists>s. iterations e k (startup e) = Inr s \<and> length (img_raw s) = 400000 \<and> P k s"
proof (induction k)
  case 0
  show ?case
    using assms(1) by (simp add: length_img_raw_startup)
next
  case (Suc k)
  then obtain s where s: "iterations e k (startup e) = Inr s" "length (img_raw s) = 400000" "P k s"
    by blast
  obtain s' where s': "iteration e s = Inr s'"
    using s(2) by (simp add: iteration_eq)
  have "length (img_raw s') = 400000"
    using s(2) s' by (rule length_img_raw_iteration)
  moreover have "P (Suc k) s'"
    using s(3) s(2) s' by (rule assms(2))
  ultimately show ?case
    using s(1) s' by (simp only: iterations_snoc) simp
qed

lemma frame_image_fields:
  "im_rows (frame_image s) = rows" "im_cols (frame_image s) = cols"
  "im_pixels (frame_image s) = img_raw s"
  by (simp_all add: frame_image_def)

lemma frames_invariant:
  "\<exists>s. iterations e k (startup e) = Inr s \<and> length (img_raw s) = 400000 \<and>
       (length (displayed s) = k \<and> list_all frame_ok (displayed s))"
proof (rule iterations_invariant)
  show "length (displayed (startup e)) = 0 \<and> list_all frame_ok (displayed (startup e))"
    by (simp add: startup_def namedWindow_def now_def)
next
  fix k s s'
  assume inv: "length (displayed s) = k \<and> list_all frame_ok (displayed s)"
    and len: "length (img_raw s) = 400000" and it: "iteration e s = Inr s'"
  have "length (img_raw (fill_result e 400000 0 s)) = 400000"
    using img_raw_fill_result [of 400000 s e] len by simp
  then have "frame_ok (frame_image (fill_result e 400000 0 s))"
    by (simp add: frame_ok_def frame_image_fields) (simp add: cols_def rows_def)
  then show "length (displayed s') = Suc k \<and> list_all frame_ok (displayed s')"
    using inv by (simp add: iteration_fields(2) [OF len it])
qed

lemma run_exists: "\<exists>t. iterations e k (startup e) = Inr t \<and> length (img_raw t) = 400000"
  using frames_invariant [of e k] by blast

text \<open>
  Claim C7. Any number \<open>k\<close> of passes from the start run without an access out of
  bounds; afterwards \<^verbatim>\<open>img_raw\<close> still has 400000 = cols times rows bytes, and each of the
  \<open>k\<close> images handed to \<^verbatim>\<open>imshow\<close> has 400 rows, 1000 columns and 400000 bytes.
\<close>

theorem every_frame_has_400000_bytes:
  "\<exists>s. iterations e k (startup e) = Inr s \<and>
       length (img_raw s) = 400000 \<and> int (length (img_raw s)) = cols * rows \<and>
       length (displayed s) = k \<and>
       list_all (\<lambda>im. im_rows im = rows \<and> im_cols im = cols \<and>
                      length (im_pixels im) = 400000 \<and>
                      int (length (im_pixels im)) = im_cols im * im_rows im) (displayed s)"
proof -
  obtain s where s: "iterations e k (startup e) = Inr s" "length (img_raw s) = 400000"
    "length (displayed s) = k" "list_all frame_ok (displayed s)"
    using frames_invariant [of e k] by blast
  have "int (length (img_raw s)) = cols * rows"
    using s(2) by (simp add: cols_def rows_def)
  moreover have "list_all (\<lambda>im. im_rows im = rows \<and> im_cols im = cols \<and>
                      length (im_pixels im) = 400000 \<and>
                      int (length (im_pixels im)) = im_cols im * im_rows im) (displayed s)"
    using s(4) by (simp add: frame_ok_def [abs_def])
  ultimately show ?thesis
    using s(1,2,3) by (intro exI [of _ s]) simp
qed

lemma writes_invariant:
  assumes "\<forall>k. 0 \<le> rand_seq e k"
  shows "\<exists>t. iterations e k (startup e) = Inr t \<and> length (img_raw t) = 400000 \<and>
     (list_all (\<lambda>w. snd w \<noteq> 255) (img_raw_writes t) \<and> list_all (\<lambda>v. v \<noteq> 255) (img_raw t) \<and>
      length (img_raw_writes t) = k * 400000 \<and> rand_calls t = k * 400000)"
proof (rule iterations_invariant)
  show "list_all (\<lambda>w. snd w \<noteq> 255) (img_raw_writes (startup e)) \<and>
      list_all (\<lambda>v. v \<noteq> 255) (img_raw (startup e)) \<and>
      length (img_raw_writes (startup e)) = 0 * 400000 \<and> rand_calls (startup e) = 0 * 400000"
    by (simp add: startup_fields list_all_iff)
next
  fix k s s'
  assume inv: "list_all (\<lambda>w. snd w \<noteq> 255) (img_raw_writes s) \<and> list_all (\<lambda>v. v \<noteq> 255) (img_raw s) \<and>
      length (img_raw_writes s) = k * 400000 \<and> rand_calls s = k * 400000"
    and len: "length (img_raw s) = 400000" and it: "iteration e s = Inr s'"
  have px: "pixel_of_rand (rand_seq e j) \<noteq> 255" for j
    using assms by (simp add: pixel_of_rand_below_255)
  have "list_all (\<lambda>v. v \<noteq> 255) (img_raw s')"
    by (simp only: iteration_fields(1) [OF len it] img_raw_fill_result_full [OF len])
       (simp add: list_all_iff px)
  moreover have "list_all (\<lambda>w. snd w \<noteq> 255) (img_raw_writes s')"
    using inv
    by (simp only: iteration_fields(4) [OF len it] img_raw_writes_fill_result)
       (auto simp: list_all_iff px)
  moreover have "length (img_raw_writes s') = Suc k * 400000"
    using inv
    by (simp only: iteration_fields(4) [OF len it] img_raw_writes_fill_result) simp
  moreover have "rand_calls s' = Suc k * 400000"
    using inv by (simp add: iteration_fields(5) [OF len it])
  ultimately show "list_all (\<lambda>w. snd w \<noteq> 255) (img_raw_writes s') \<and>
      list_all (\<lambda>v. v \<noteq> 255) (img_raw s') \<and>
      length (img_raw_writes s') = Suc k * 400000 \<and> rand_calls s' = Suc k * 400000"
    by simp
qed

text \<open>
  Claim C10. With the values of \<^verbatim>\<open>rand()\<close> non-negative, the byte the loop stores at
  index \<open>j\<close> is its \<open>j\<close>-th draw modulo 255, converted to a byte: its value is the draw
  modulo 255, at most 254 and never 255. This holds from any state, so in every pass;
  and after any number \<open>k\<close> of passes from the start, none of the \<open>k\<close> times 400000 stores
  made so far wrote 255 and no byte of \<^verbatim>\<open>img_raw\<close> is 255.
\<close>

theorem sample_is_rand_mod_255:
  assumes "\<forall>k. 0 \<le> rand_seq e k"
  shows "(unat n \<le> length (img_raw s) \<longrightarrow>
      (\<exists>s'. fill_loop e n 0 s = Inr s' \<and>
         drop (length (img_raw_writes s)) (img_raw_writes s') =
           map (\<lambda>j. (j, pixel_of_rand (rand_seq e (rand_calls s + j)))) [0 ..< unat n] \<and>
         (\<forall>j<unat n.
            img_raw s' ! j = word_of_int (c_rem (rand_seq e (rand_calls s + j)) 255) \<and>
            uint (img_raw s' ! j) = rand_seq e (rand_calls s + j) mod 255 \<and>
            img_raw s' ! j \<le> 254 \<and> img_raw s' ! j \<noteq> 255))) \<and>
    (\<exists>t. iterations e k (startup e) = Inr t \<and>
         length (img_raw_writes t) = k * 400000 \<and>
         list_all (\<lambda>w. snd w \<noteq> 255) (img_raw_writes t) \<and>
         list_all (\<lambda>v. v \<noteq> 255) (img_raw t))"
proof (intro conjI impI)
  assume len: "unat n \<le> length (img_raw s)"
  show "\<exists>s'. fill_loop e n 0 s = Inr s' \<and>
         drop (length (img_raw_writes s)) (img_raw_writes s') =
           map (\<lambda>j. (j, pixel_of_rand (rand_seq e (rand_calls s + j)))) [0 ..< unat n] \<and>
         (\<forall>j<unat n.
            img_raw s' ! j = word_of_int (c_rem (rand_seq e (rand_calls s + j)) 255) \<and>
            uint (img_raw s' ! j) = rand_seq e (rand_calls s + j) mod 255 \<and>
            img_raw s' ! j \<le> 254 \<and> img_raw s' ! j \<noteq> 255)"
  proof (intro exI conjI)
    show "fill_loop e n 0 s = Inr (fill_result e n 0 s)"
      using len by (simp add: fill_loop_result)
    show "drop (length (img_raw_writes s)) (img_raw_writes (fill_result e n 0 s)) =
         map (\<lambda>j. (j, pixel_of_rand (rand_seq e (rand_calls s + j)))) [0 ..< unat n]"
      by (simp only: new_writes_fill_result)
    have px: "uint (pixel_of_rand (rand_seq e k)) = rand_seq e k mod 255 \<and>
        pixel_of_rand (rand_seq e k) \<le> 254 \<and> pixel_of_rand (rand_seq e k) \<noteq> 255" for k
      using assms by (simp add: uint_pixel_of_rand pixel_of_rand_below_255)
    show "\<forall>j<unat n.
          img_raw (fill_result e n 0 s) ! j = word_of_int (c_rem (rand_seq e (rand_calls s + j)) 255) \<and>
          uint (img_raw (fill_result e n 0 s) ! j) = rand_seq e (rand_calls s + j) mod 255 \<and>
          img_raw (fill_result e n 0 s) ! j \<le> 254 \<and> img_raw (fill_result e n 0 s) ! j \<noteq> 255"
    proof (intro allI impI)
      fix j assume "j < unat n"
      then have "img_raw (fill_result e n 0 s) ! j = pixel_of_rand (rand_seq e (rand_calls s + j))"
        by (rule nth_img_raw_fill_result)
      then show "img_raw (fill_result e n 0 s) ! j = word_of_int (c_rem (rand_seq e (rand_calls s + j)) 255) \<and>
          uint (img_raw (fill_result e n 0 s) ! j) = rand_seq e (rand_calls s + j) mod 255 \<and>
          img_raw (fill_result e n 0 s) ! j \<le> 254 \<and> img_raw (fill_result e n 0 s) ! j \<noteq> 255"
        using px [of "rand_calls s + j"] by (simp add: pixel_of_rand_def)
    qed
  qed
next
  obtain t where t: "iterations e k (startup e) = Inr t"
    "list_all (\<lambda>w. snd w \<noteq> 255) (img_raw_writes t)" "list_all (\<lambda>v. v \<noteq> 255) (img_raw t)"
    "length (img_raw_writes t) = k * 400000"
    using writes_invariant [OF assms, of k] by blast
  then show "\<exists>t. iterations e k (startup e) = Inr t \<and>
         length (img_raw_writes t) = k * 400000 \<and>
         list_all (\<lambda>w. snd w \<noteq> 255) (img_raw_writes t) \<and>
         list_all (\<lambda>v. v \<noteq> 255) (img_raw t)"
    by (intro exI [of _ t]) simp
qed

theorem sample_is_rand_mod_255_witness:
  "(\<forall>k. 0 \<le> rand_seq env_ramp k) \<and> unat (3 :: 32 word) \<le> length (img_raw state_four) \<and>
   (\<exists>s'. fill_loop env_ramp 3 0 state_four = Inr s' \<and>
         img_raw_writes s' = [(0, 254), (1, 0), (2, 1)] \<and>
         img_raw s' ! 0 = 254 \<and> img_raw s' ! 1 = 0 \<and> img_raw s' ! 2 = 1) \<and>
   (\<exists>t. iterations env_ramp 2 (startup env_ramp) = Inr t \<and>
         length (img_raw_writes t) = 800000 \<and>
         list_all (\<lambda>w. snd w \<noteq> 255) (img_raw_writes t))"
proof -
  have h1: "\<forall>k. 0 \<le> rand_seq env_ramp k"
    by (simp add: env_ramp_def)
  have h2: "unat (3 :: 32 word) \<le> length (img_raw state_four)"
    by (simp add: state_four_def)
  have u: "[0 ..< 3] = [0, 1, 2]"
    by (simp add: upt_rec)
  have p: "pixel_of_rand 254 = 254" "pixel_of_rand 255 = 0" "pixel_of_rand 256 = 1"
    by (simp_all add: pixel_of_rand_def c_rem_def)
  from sample_is_rand_mod_255 [OF h1, THEN conjunct1, THEN mp, OF h2]
  obtain s' where s': "fill_loop env_ramp 3 0 state_four = Inr s'"
    "drop (length (img_raw_writes state_four)) (img_raw_writes s') =
        map (\<lambda>j. (j, pixel_of_rand (rand_seq env_ramp (rand_calls state_four + j)))) [0 ..< unat (3 :: 32 word)]"
    "\<forall>j<unat (3 :: 32 word). img_raw s' ! j = word_of_int (c_rem (rand_seq env_ramp (rand_calls state_four + j)) 255)"
    by blast
  have "img_raw_writes s' = [(0, 254), (1, 0), (2, 1)]"
    using s'(2) by (simp add: state_four_def env_ramp_def u p)
  moreover have "img_raw s' ! 0 = 254 \<and> img_raw s' ! 1 = 0 \<and> img_raw s' ! 2 = 1"
    using s'(3) p by (simp add: state_four_def env_ramp_def pixel_of_rand_def)
  ultimately have a: "\<exists>s'. fill_loop env_ramp 3 0 state_four = Inr s' \<and>
         img_raw_writes s' = [(0, 254), (1, 0), (2, 1)] \<and>
         img_raw s' ! 0 = 254 \<and> img_raw s' ! 1 = 0 \<and> img_raw s' ! 2 = 1"
    using s'(1) by (intro exI [of _ s']) simp
  from sample_is_rand_mod_255 [OF h1, THEN conjunct2, of 2]
  obtain t where t: "iterations env_ramp 2 (startup env_ramp) = Inr t"
    "length (img_raw_writes t) = 2 * 400000" "list_all (\<lambda>w. snd w \<noteq> 255) (img_raw_writes t)"
    by blast
  then have b: "\<exists>t. iterations env_ramp 2 (startup env_ramp) = Inr t \<and>
         length (img_raw_writes t) = 800000 \<and>
         list_all (\<lambda>w. snd w \<noteq> 255) (img_raw_writes t)"
    by (intro exI [of _ t]) simp
  show ?thesis
    using h1 h2 a b by (simp only: simp_thms)
qed

text \<open>
  Claim C2 fails beyond what an \<^verbatim>\<open>int\<close> and a 64-bit difference hold. The tally cannot hold
  \<open>2 ^ 31\<close>: when 2147483648 passes measure no more than a second and the next measures
  more, the increment has overflowed and the line printed is not \<^verbatim>\<open>FPS: 2147483648\<close>;
  with the wrap-around of two's complement it is \<^verbatim>\<open>FPS: -2147483648\<close>. And with the
  timestamp at \<open>- 2 ^ 63\<close> and the first reading 1, more than a second apart as numbers,
  the first pass prints nothing where the claim has it print 0.
\<close>

theorem fps_report_wraps_counterexample:
  "\<not> (\<exists>j<2147483648. ns_per_second
          < sint (clock_seq env_burst (clock_calls (startup env_burst) + j)
              - time_of_last_fps_calculation (startup env_burst))) \<and>
   ns_per_second
     < sint (clock_seq env_burst (clock_calls (startup env_burst) + 2147483648)
         - time_of_last_fps_calculation (startup env_burst)) \<and>
   (\<exists>t. iterations env_burst (Suc 2147483648) (startup env_burst) = Inr t \<and>
        cout t = [- 2147483648]) \<and>
   ns_per_second
     < sint (clock_seq (env_clock [- 9223372036854775808, 1])
               (clock_calls (startup (env_clock [- 9223372036854775808, 1]))))
       - sint (time_of_last_fps_calculation (startup (env_clock [- 9223372036854775808, 1]))) \<and>
   (\<exists>t. iterations (env_clock [- 9223372036854775808, 1]) (Suc 0)
          (startup (env_clock [- 9223372036854775808, 1])) = Inr t \<and>
        cout t = [] \<and> frames_since_last_fps_calculation t = 1)"
proof -
  have h3: "\<forall>j<2147483648. sint (clock_seq env_burst (clock_calls (startup env_burst) + j)
      - time_of_last_fps_calculation (startup env_burst)) \<le> ns_per_second"
    by (simp add: env_burst_def startup_fields ns_per_second_def)
  have h4: "ns_per_second
      < sint (clock_seq env_burst (clock_calls (startup env_burst) + 2147483648)
          - time_of_last_fps_calculation (startup env_burst))"
    by (simp add: env_burst_def startup_fields ns_per_second_def)
  have a: "\<not> (\<exists>j<2147483648. ns_per_second
          < sint (clock_seq env_burst (clock_calls (startup env_burst) + j)
              - time_of_last_fps_calculation (startup env_burst)))"
    by (simp add: env_burst_def startup_fields ns_per_second_def)
  obtain t where t: "iterations env_burst (Suc 2147483648) (startup env_burst) = Inr t"
    using run_exists [of env_burst "Suc 2147483648"] by blast
  have "monitor_fields t
      = monitor_fields ((rate_monitor env_burst ^^ Suc 2147483648) (startup env_burst))"
    using t by (rule iterations_monitor)
  then have "cout t = [- 2147483648]"
    by (simp only: report_after_ticks [OF h3 h4]) (simp add: monitor_fields_def startup_fields)
  with t have b: "\<exists>t. iterations env_burst (Suc 2147483648) (startup env_burst) = Inr t \<and>
        cout t = [- 2147483648]"
    by (intro exI [of _ t]) simp
  define e where "e = env_clock [- 9223372036854775808, 1]"
  have c: "clock_seq e 0 = - 9223372036854775808" "clock_seq e (Suc 0) = 1"
    by (simp_all add: e_def env_clock_def)
  have far: "ns_per_second
      < sint (clock_seq e (clock_calls (startup e))) - sint (time_of_last_fps_calculation (startup e))"
    by (simp add: startup_fields c ns_per_second_def)
  obtain u where u: "iterations e (Suc 0) (startup e) = Inr u"
    using run_exists [of e "Suc 0"] by blast
  have "monitor_fields u = monitor_fields ((rate_monitor e ^^ Suc 0) (startup e))"
    using u by (rule iterations_monitor)
  then have "cout u = [] \<and> frames_since_last_fps_calculation u = 1"
    by (simp add: monitor_fields_def rate_monitor_eq startup_fields c ns_per_second_def)
  with u have d: "\<exists>t. iterations e (Suc 0) (startup e) = Inr t \<and>
        cout t = [] \<and> frames_since_last_fps_calculation t = 1"
    by (intro exI [of _ u]) simp
  show ?thesis
    using a h4 b far d by (simp only: e_def [symmetric] simp_thms)
qed

lemma tally_invariant:
  "\<exists>t. iterations e k (startup e) = Inr t \<and> length (img_raw t) = 400000 \<and>
     (iterations e k (startup e) = Inr t \<and>
      ((\<forall>j<k. \<forall>s. iterations e j (startup e) = Inr s \<longrightarrow> \<not> tally_overflows e s) \<longrightarrow>
        sum_list (cout t) + sint (frames_since_last_fps_calculation t) + int (length (cout t))
          = int k))"
proof (rule iterations_invariant)
  show "iterations e 0 (startup e) = Inr (startup e) \<and>
      ((\<forall>j<0. \<forall>s. iterations e j (startup e) = Inr s \<longrightarrow> \<not> tally_overflows e s) \<longrightarrow>
        sum_list (cout (startup e)) + sint (frames_since_last_fps_calculation (startup e))
          + int (length (cout (startup e))) = int 0)"
    by (simp add: startup_fields)
next
  fix k s s'
  assume inv: "iterations e k (startup e) = Inr s \<and>
      ((\<forall>j<k. \<forall>s. iterations e j (startup e) = Inr s \<longrightarrow> \<not> tally_overflows e s) \<longrightarrow>
        sum_list (cout s) + sint (frames_since_last_fps_calculation s) + int (length (cout s))
          = int k)"
    and it: "iteration e s = Inr s'"
  have run: "iterations e (Suc k) (startup e) = Inr s'"
    using inv it by (simp only: iterations_snoc) simp
  have mf: "monitor_fields s' = monitor_fields (rate_monitor e s)"
    using it by (rule iteration_monitor)
  have "sum_list (cout s') + sint (frames_since_last_fps_calculation s') + int (length (cout s'))
          = int (Suc k)"
    if h: "\<forall>j<Suc k. \<forall>s. iterations e j (startup e) = Inr s \<longrightarrow> \<not> tally_overflows e s"
  proof -
    from h have "\<forall>j<k. \<forall>s. iterations e j (startup e) = Inr s \<longrightarrow> \<not> tally_overflows e s"
      using less_SucI by blast
    with inv have eq: "sum_list (cout s) + sint (frames_since_last_fps_calculation s)
        + int (length (cout s)) = int k"
      by simp
    from h inv have safe: "\<not> tally_overflows e s"
      using lessI by blast
    show ?thesis
    proof (cases "ns_per_second
        < sint (clock_seq e (clock_calls s) - time_of_last_fps_calculation s)")
      case True
      then show ?thesis
        using mf eq by (simp add: monitor_fields_def rate_monitor_eq)
    next
      case False
      with safe have "frames_since_last_fps_calculation s \<noteq> 2147483647"
        by (simp add: tally_overflows_def)
      then have "sint (frames_since_last_fps_calculation s + 1)
          = sint (frames_since_last_fps_calculation s) + 1"
        by (intro sint_inc sint_below_max)
      then show ?thesis
        using mf eq False by (simp add: monitor_fields_def rate_monitor_eq)
    qed
  qed
  with run show "iterations e (Suc k) (startup e) = Inr s' \<and>
      ((\<forall>j<Suc k. \<forall>s. iterations e j (startup e) = Inr s \<longrightarrow> \<not> tally_overflows e s) \<longrightarrow>
        sum_list (cout s') + sint (frames_since_last_fps_calculation s') + int (length (cout s'))
          = int (Suc k))"
    by simp
qed

text \<open>
  Claim C4, with the tally of the open window counted and no overflow of the tally. A
  pass from a state whose array has its 400000 bytes does exactly one of two things: it
  leaves the console alone and increments the tally, or it prints the tally and resets
  it. So the frame of a printing pass is counted nowhere, and after \<open>k\<close> passes from the
  start, none of which incremented a tally of 2147483647, the sum of the printed values
  plus the current tally is \<open>k\<close> minus the number of lines printed.
\<close>

theorem one_action_per_iteration_and_tally_sum:
  "(length (img_raw s) = 400000 \<longrightarrow>
      (\<exists>s'. iteration e s = Inr s' \<and>
         ((cout s' = cout s \<and>
           frames_since_last_fps_calculation s' = frames_since_last_fps_calculation s + 1)
          \<noteq> (cout s' = cout s @ [sint (frames_since_last_fps_calculation s)] \<and>
              frames_since_last_fps_calculation s' = 0)))) \<and>
   ((\<forall>j<k. \<forall>s. iterations e j (startup e) = Inr s \<longrightarrow> \<not> tally_overflows e s) \<longrightarrow>
      (\<exists>t. iterations e k (startup e) = Inr t \<and>
         sum_list (cout t) + sint (frames_since_last_fps_calculation t)
           = int k - int (length (cout t))))"
proof (intro conjI impI)
  assume len: "length (img_raw s) = 400000"
  then obtain s' where it: "iteration e s = Inr s'"
    by (simp add: iteration_eq)
  have mf: "monitor_fields s' = monitor_fields (rate_monitor e s)"
    using it by (rule iteration_monitor)
  have "(cout s' = cout s \<and>
           frames_since_last_fps_calculation s' = frames_since_last_fps_calculation s + 1)
          \<noteq> (cout s' = cout s @ [sint (frames_since_last_fps_calculation s)] \<and>
              frames_since_last_fps_calculation s' = 0)"
    using mf by (auto simp: monitor_fields_def rate_monitor_eq split: if_splits)
  with it show "\<exists>s'. iteration e s = Inr s' \<and>
         ((cout s' = cout s \<and>
           frames_since_last_fps_calculation s' = frames_since_last_fps_calculation s + 1)
          \<noteq> (cout s' = cout s @ [sint (frames_since_last_fps_calculation s)] \<and>
              frames_since_last_fps_calculation s' = 0))"
    by (intro exI [of _ s']) simp
next
  assume h: "\<forall>j<k. \<forall>s. iterations e j (startup e) = Inr s \<longrightarrow> \<not> tally_overflows e s"
  obtain t where t: "iterations e k (startup e) = Inr t"
    "(\<forall>j<k. \<forall>s. iterations e j (startup e) = Inr s \<longrightarrow> \<not> tally_overflows e s) \<longrightarrow>
        sum_list (cout t) + sint (frames_since_last_fps_calculation t) + int (length (cout t))
          = int k"
    using tally_invariant [of e k] by blast
  from t(2) h have "sum_list (cout t) + sint (frames_since_last_fps_calculation t)
           = int k - int (length (cout t))"
    by simp
  with t(1) show "\<exists>t. iterations e k (startup e) = Inr t \<and>
         sum_list (cout t) + sint (frames_since_last_fps_calculation t)
           = int k - int (length (cout t))"
    by (intro exI [of _ t]) simp
qed

theorem one_action_per_iteration_and_tally_sum_witness:
  "length (img_raw (startup (env_clock [0, 5, 2000000000, 2000000003]))) = 400000 \<and>
   (\<exists>s'. iteration (env_clock [0, 5, 2000000000, 2000000003])
            (startup (env_clock [0, 5, 2000000000, 2000000003])) = Inr s' \<and>
         cout s' = [] \<and> frames_since_last_fps_calculation s' = 1) \<and>
   \<not> (\<exists>j<2. \<exists>s. iterations (env_clock [0, 5, 2000000000, 2000000003]) j
            (startup (env_clock [0, 5, 2000000000, 2000000003])) = Inr s \<and>
         tally_overflows (env_clock [0, 5, 2000000000, 2000000003]) s) \<and>
   (\<exists>t. iterations (env_clock [0, 5, 2000000000, 2000000003]) 2
            (startup (env_clock [0, 5, 2000000000, 2000000003])) = Inr t \<and>
         cout t = [1] \<and> frames_since_last_fps_calculation t = 0 \<and>
         sum_list (cout t) + sint (frames_since_last_fps_calculation t)
           = 2 - int (length (cout t)))"
proof -
  define e where "e = env_clock [0, 5, 2000000000, 2000000003]"
  have c: "clock_seq e 0 = 0" "clock_seq e (Suc 0) = 5" "clock_seq e (Suc (Suc 0)) = 2000000000"
    "clock_seq e (Suc (Suc (Suc 0))) = 2000000003"
    by (simp_all add: e_def env_clock_def)
  have h1: "length (img_raw (startup e)) = 400000"
    by (rule length_img_raw_startup)
  have h2: "\<forall>j<2. \<forall>s. iterations e j (startup e) = Inr s \<longrightarrow> \<not> tally_overflows e s"
  proof (intro allI impI)
    fix j :: nat and s
    assume j: "j < 2" and run: "iterations e j (startup e) = Inr s"
    have mf: "monitor_fields s = monitor_fields ((rate_monitor e ^^ j) (startup e))"
      using run by (rule iterations_monitor)
    from j have "j = 0 \<or> j = Suc 0"
      by auto
    then have "frames_since_last_fps_calculation s \<noteq> 2147483647"
      using mf
      by (auto simp: monitor_fields_def rate_monitor_eq startup_fields c ns_per_second_def)
    then show "\<not> tally_overflows e s"
      by (simp add: tally_overflows_def)
  qed
  from one_action_per_iteration_and_tally_sum [THEN conjunct1, THEN mp, OF h1, of e]
  obtain s' where s': "iteration e (startup e) = Inr s'"
    by blast
  have "monitor_fields s' = monitor_fields (rate_monitor e (startup e))"
    using s' by (rule iteration_monitor)
  then have a: "cout s' = [] \<and> frames_since_last_fps_calculation s' = 1"
    by (simp add: monitor_fields_def rate_monitor_eq startup_fields c ns_per_second_def)
  from one_action_per_iteration_and_tally_sum [THEN conjunct2, THEN mp, OF h2]
  obtain t where t: "iterations e 2 (startup e) = Inr t"
    "sum_list (cout t) + sint (frames_since_last_fps_calculation t) = int 2 - int (length (cout t))"
    by blast
  have "monitor_fields t = monitor_fields ((rate_monitor e ^^ 2) (startup e))"
    using t(1) by (rule iterations_monitor)
  then have b: "cout t = [1] \<and> frames_since_last_fps_calculation t = 0"
    by (simp add: monitor_fields_def numeral_2_eq_2 rate_monitor_eq startup_fields c ns_per_second_def)
  have "\<exists>s'. iteration e (startup e) = Inr s' \<and> cout s' = [] \<and> frames_since_last_fps_calculation s' = 1"
    using s' a by (intro exI [of _ s']) simp
  moreover have "\<exists>t. iterations e 2 (startup e) = Inr t \<and>
         cout t = [1] \<and> frames_since_last_fps_calculation t = 0 \<and>
         sum_list (cout t) + sint (frames_since_last_fps_calculation t) = 2 - int (length (cout t))"
    using t b by (intro exI [of _ t]) simp
  moreover have "\<not> (\<exists>j<2. \<exists>s. iterations e j (startup e) = Inr s \<and> tally_overflows e s)"
    using h2 by blast
  ultimately show ?thesis
    using h1 by (simp only: e_def [symmetric] simp_thms)
qed

text \<open>
  Both provisos are needed. Without the current tally the equation fails after one pass
  within the first second: nothing has been printed, so the printed values sum to 0,
  while one frame has been processed and no line printed. And once an increment has
  overflowed it fails with the current tally too: after 2147483648 passes within the
  first second nothing has been printed and the tally reads -2147483648.
\<close>

theorem reported_sum_misses_open_window_counterexample:
  "(\<exists>t. iterations env_ramp (Suc 0) (startup env_ramp) = Inr t \<and> cout t = [] \<and>
        frames_since_last_fps_calculation t = 1 \<and>
        sum_list (cout t) \<noteq> int (Suc 0) - int (length (cout t))) \<and>
   (\<exists>t. iterations env_ramp 2147483648 (startup env_ramp) = Inr t \<and> cout t = [] \<and>
        sint (frames_since_last_fps_calculation t) = - 2147483648 \<and>
        sum_list (cout t) + sint (frames_since_last_fps_calculation t)
          \<noteq> int 2147483648 - int (length (cout t)))"
proof -
  obtain t where t: "iterations env_ramp (Suc 0) (startup env_ramp) = Inr t"
    using run_exists [of env_ramp "Suc 0"] by blast
  have "monitor_fields t = monitor_fields ((rate_monitor env_ramp ^^ Suc 0) (startup env_ramp))"
    using t by (rule iterations_monitor)
  then have "cout t = [] \<and> frames_since_last_fps_calculation t = 1"
    by (simp add: monitor_fields_def rate_monitor_eq startup_fields env_ramp_def ns_per_second_def)
  then have a: "\<exists>t. iterations env_ramp (Suc 0) (startup env_ramp) = Inr t \<and> cout t = [] \<and>
        frames_since_last_fps_calculation t = 1 \<and>
        sum_list (cout t) \<noteq> int (Suc 0) - int (length (cout t))"
    using t by (intro exI [of _ t]) simp
  have still: "\<forall>j<2147483648. sint (clock_seq env_ramp (clock_calls (startup env_ramp) + j)
      - time_of_last_fps_calculation (startup env_ramp)) \<le> ns_per_second"
    by (simp add: env_ramp_def startup_fields ns_per_second_def)
  obtain u where u: "iterations env_ramp 2147483648 (startup env_ramp) = Inr u"
    using run_exists [of env_ramp 2147483648] by blast
  have "monitor_fields u
      = monitor_fields ((rate_monitor env_ramp ^^ 2147483648) (startup env_ramp))"
    using u by (rule iterations_monitor)
  then have "cout u = [] \<and> sint (frames_since_last_fps_calculation u) = - 2147483648"
    by (simp only: ticks_without_report [OF still]) (simp add: monitor_fields_def startup_fields)
  then have b: "\<exists>t. iterations env_ramp 2147483648 (startup env_ramp) = Inr t \<and> cout t = [] \<and>
        sint (frames_since_last_fps_calculation t) = - 2147483648 \<and>
        sum_list (cout t) + sint (frames_since_last_fps_calculation t)
          \<noteq> int 2147483648 - int (length (cout t))"
    using u by (intro exI [of _ u]) simp
  show ?thesis
    using a b by (simp only: simp_thms)
qed

subsection \<open>The loop condition\<close>

lemma main_loop_stops:
  "\<forall>j<n. streaming_seq e (k + j) \<Longrightarrow> \<not> streaming_seq e (k + n) \<Longrightarrow>
   iterations e n s = Inr s' \<Longrightarrow> n < fuel \<Longrightarrow> main_loop e fuel k s = Some (Inr s')"
proof (induction n arbitrary: fuel k s)
  case 0
  then obtain f where "fuel = Suc f"
    by (cases fuel) auto
  with 0 show ?case
    by simp
next
  case (Suc n)
  then obtain f where f: "fuel = Suc f" "n < f"
    by (cases fuel) auto
  from Suc.prems(3) obtain s1 where s1: "iteration e s = Inr s1" "iterations e n s1 = Inr s'"
    by (auto split: sum.splits)
  have flag: "streaming_seq e k"
    using Suc.prems(1) [rule_format, of 0] by simp
  have "\<forall>j<n. streaming_seq e (Suc k + j)"
    using Suc.prems(1) by auto
  moreover have "\<not> streaming_seq e (Suc k + n)"
    using Suc.prems(2) by simp
  ultimately have "main_loop e f (Suc k) s1 = Some (Inr s')"
    using s1(2) f(2) by (rule Suc.IH)
  then show ?case
    using f(1) flag s1(1) by simp
qed

lemma main_loop_runs:
  "\<forall>j<fuel. streaming_seq e (k + j) \<Longrightarrow> length (img_raw s) = 400000 \<Longrightarrow>
   main_loop e fuel k s = None"
proof (induction fuel arbitrary: k s)
  case 0
  show ?case by simp
next
  case (Suc fuel)
  obtain s1 where s1: "iteration e s = Inr s1"
    using Suc.prems(2) by (simp add: iteration_eq)
  have len: "length (img_raw s1) = 400000"
    using Suc.prems(2) s1 by (rule length_img_raw_iteration)
  have flag: "streaming_seq e k"
    using Suc.prems(1) [rule_format, of 0] by simp
  have "\<forall>j<fuel. streaming_seq e (Suc k + j)"
    using Suc.prems(1) by auto
  then have "main_loop e fuel (Suc k) s1 = None"
    using len by (rule Suc.IH)
  then show ?case
    using flag s1 by simp
qed

text \<open>
  Claim C8. If \<^verbatim>\<open>streaming\<close> is true at the first \<open>n\<close> tests of the loop condition and
  false at the next, the body runs exactly \<open>n\<close> times and \<^verbatim>\<open>main\<close> returns 0, given fuel
  for more than \<open>n\<close> passes. Nothing else ends the loop: \<^verbatim>\<open>main\<close> is still running when the
  fuel is used up exactly when the flag was true at every test made.
\<close>

theorem loop_ends_at_first_false_flag:
  "((\<forall>j<n. streaming_seq e j) \<and> \<not> streaming_seq e n \<and> n < fuel \<longrightarrow>
      (\<exists>s. iterations e n (startup e) = Inr s \<and> main e fuel = Some (Inr (0, s)))) \<and>
   (main e fuel = None \<longleftrightarrow> (\<forall>j<fuel. streaming_seq e j))"
proof -
  have stops: "\<exists>s. iterations e m (startup e) = Inr s \<and> main e fuel = Some (Inr (0, s))"
    if "\<forall>j<m. streaming_seq e j" "\<not> streaming_seq e m" "m < fuel" for m
  proof -
    obtain s where s: "iterations e m (startup e) = Inr s"
      using run_exists [of e m] by blast
    have "main_loop e fuel 0 (startup e) = Some (Inr s)"
      using that s by (intro main_loop_stops) simp_all
    then have "main e fuel = Some (Inr (0, s))"
      by (simp add: main_def)
    with s show ?thesis
      by (intro exI [of _ s]) simp
  qed
  have runs: "main e fuel = None" if "\<forall>j<fuel. streaming_seq e j"
  proof -
    have "main_loop e fuel 0 (startup e) = None"
      using that by (intro main_loop_runs) (simp_all add: length_img_raw_startup)
    then show ?thesis
      by (simp add: main_def)
  qed
  have ends: "main e fuel \<noteq> None" if "\<not> (\<forall>j<fuel. streaming_seq e j)"
  proof -
    from that have "\<exists>m. m < fuel \<and> \<not> streaming_seq e m"
      by auto
    then obtain m where m: "m < fuel \<and> \<not> streaming_seq e m"
      "\<forall>j<m. \<not> (j < fuel \<and> \<not> streaming_seq e j)"
      using exists_least_iff [of "\<lambda>m. m < fuel \<and> \<not> streaming_seq e m"] by blast
    then have "\<forall>j<m. streaming_seq e j"
      by auto
    with m(1) stops [of m] show ?thesis
      by auto
  qed
  from stops runs ends show ?thesis
    by blast
qed

theorem loop_ends_at_first_false_flag_witness:
  "streaming_seq (env_stop_at 2) 0 \<and> streaming_seq (env_stop_at 2) 1 \<and>
   \<not> streaming_seq (env_stop_at 2) 2 \<and> (2 :: nat) < 5 \<and>
   (\<exists>s. iterations (env_stop_at 2) 2 (startup (env_stop_at 2)) = Inr s \<and>
        main (env_stop_at 2) 5 = Some (Inr (0, s)) \<and> length (displayed s) = 2) \<and>
   main env_ramp 5 = None"
proof -
  have h: "(\<forall>j<2. streaming_seq (env_stop_at 2) j) \<and> \<not> streaming_seq (env_stop_at 2) 2 \<and> (2 :: nat) < 5"
    by (simp add: env_stop_at_def)
  from loop_ends_at_first_false_flag [THEN conjunct1, THEN mp, OF h]
  obtain s where s: "iterations (env_stop_at 2) 2 (startup (env_stop_at 2)) = Inr s"
    "main (env_stop_at 2) 5 = Some (Inr (0, s))"
    by blast
  obtain s' where s': "iterations (env_stop_at 2) 2 (startup (env_stop_at 2)) = Inr s'"
    "length (displayed s') = 2"
    using frames_invariant [of "env_stop_at 2" 2] by blast
  with s have "length (displayed s) = 2"
    by simp
  with s have "\<exists>s. iterations (env_stop_at 2) 2 (startup (env_stop_at 2)) = Inr s \<and>
        main (env_stop_at 2) 5 = Some (Inr (0, s)) \<and> length (displayed s) = 2"
    by (intro exI [of _ s]) simp
  moreover have "main env_ramp 5 = None"
    using loop_ends_at_first_false_flag [THEN conjunct2, of env_ramp 5]
    by (simp add: env_ramp_def)
  ultimately show ?thesis
    by (simp add: env_stop_at_def)
qed

subsection \<open>Building the wrapper once\<close>

lemma iteration_hoisted_eq:
  "iteration_hoisted (Mat_wrap rows cols CV_8UC1 Ptr_img_raw) e s = iteration e s"
  by (simp add: iteration_hoisted_def iteration_def Let_def split: sum.splits)

lemma main_loop_hoisted_eq:
  "main_loop_hoisted (Mat_wrap rows cols CV_8UC1 Ptr_img_raw) e fuel k s = main_loop e fuel k s"
  by (induction fuel arbitrary: k s) (simp_all add: iteration_hoisted_eq split: sum.splits)

text \<open>
  Claim C9. The program that builds the \<^verbatim>\<open>Mat\<close> header once, before the loop, gives the
  result of the program as written for every environment and every amount of fuel: the
  same exit code and the same final state, which holds the console output, the windows
  and the images displayed in each pass.
\<close>

theorem hoisting_the_wrapper_changes_nothing: "main_hoisted e fuel = main e fuel"
  by (simp add: main_hoisted_def main_def Let_def main_loop_hoisted_eq)

end
